theory Spec2Isabelle
  imports Main "HOL-Library.Sublist"
begin

section \<open>The configuration item registry and commit pipeline of Icinga 2 (configitem.cpp)\<close>

text \<open>
  The development embeds \<^verbatim>\<open>ConfigItem\<close> and the static helpers of the same file.
  Pointers are natural numbers, the heap of items and the heap of objects are
  functions from pointers, and every function of the source takes the state and
  returns the new one. An exception is a value of type \<open>error\<close>; a function that
  can throw returns the exception (or the result) together with the state reached
  when it was thrown, since nothing that happened before the throw is undone.
  Log output is not part of the model.
\<close>

subsection \<open>Strings and ordered maps\<close>

text \<open>\<^verbatim>\<open>String::operator<\<close>: the byte-wise lexicographic order of \<^verbatim>\<open>std::string\<close>.\<close>

fun String_less :: "string \<Rightarrow> string \<Rightarrow> bool" where
  "String_less [] [] = False"
| "String_less [] (y # ys) = True"
| "String_less (x # xs) [] = False"
| "String_less (x # xs) (y # ys) =
     ((of_char x :: nat) < of_char y \<or> (x = y \<and> String_less xs ys))"

text \<open>
  \<^verbatim>\<open>String::Find(str)\<close> is \<^verbatim>\<open>std::string::find(str, 0)\<close>: the first position at
  which \<open>str\<close> occurs, \<open>None\<close> for \<^verbatim>\<open>String::NPos\<close>. The empty string occurs at
  position 0 of every string.
\<close>

fun Find_from :: "nat \<Rightarrow> string \<Rightarrow> string \<Rightarrow> nat option" where
  "Find_from pos [] str = (if str = [] then Some pos else None)"
| "Find_from pos (c # cs) str =
     (if prefix str (c # cs) then Some pos else Find_from (Suc pos) cs str)"

definition Find :: "string \<Rightarrow> string \<Rightarrow> nat option" where
  "Find s str = Find_from 0 s str"

text \<open>
  A \<^verbatim>\<open>std::map\<close> is an association list kept in key order, so that iterating the
  list is iterating the map. \<open>std_map_set\<close> is \<^verbatim>\<open>m[k] = v\<close>, \<open>std_map_index\<close> is
  the bare \<^verbatim>\<open>m[k]\<close>, which creates the entry when it is missing, and
  \<open>std_map_erase\<close> is \<^verbatim>\<open>m.erase(k)\<close>.
\<close>

fun std_map_set :: "('k \<Rightarrow> 'k \<Rightarrow> bool) \<Rightarrow> 'k \<Rightarrow> 'v \<Rightarrow> ('k \<times> 'v) list \<Rightarrow> ('k \<times> 'v) list" where
  "std_map_set lt k v [] = [(k, v)]"
| "std_map_set lt k v ((k', v') # m) =
     (if k = k' then (k, v) # m
      else if lt k k' then (k, v) # (k', v') # m
      else (k', v') # std_map_set lt k v m)"

definition std_map_index :: "('k \<Rightarrow> 'k \<Rightarrow> bool) \<Rightarrow> 'k \<Rightarrow> 'v \<Rightarrow> ('k \<times> 'v) list \<Rightarrow> ('k \<times> 'v) list" where
  "std_map_index lt k dflt m =
     (case map_of m k of None \<Rightarrow> std_map_set lt k dflt m | Some v \<Rightarrow> m)"

definition std_map_erase :: "'k \<Rightarrow> ('k \<times> 'v) list \<Rightarrow> ('k \<times> 'v) list" where
  "std_map_erase k m = filter (\<lambda>kv. fst kv \<noteq> k) m"

subsection \<open>Data model\<close>

text \<open>A \<^verbatim>\<open>Type::Ptr\<close>; \<open>None\<close> is the null pointer. Pointers are ordered by address.\<close>

type_synonym TypePtr = "nat option"
type_synonym ItemPtr = nat
type_synonym ObjPtr = nat
type_synonym FuncPtr = nat
type_synonym ContextPtr = "nat option"
type_synonym Value = string

fun TypePtr_less :: "TypePtr \<Rightarrow> TypePtr \<Rightarrow> bool" where
  "TypePtr_less None None = False"
| "TypePtr_less None (Some b) = True"
| "TypePtr_less (Some a) None = False"
| "TypePtr_less (Some a) (Some b) = (a < b)"

record DebugInfo =
  Path :: string
  FirstLine :: int
  FirstColumn :: int
  LastLine :: int
  LastColumn :: int

text \<open>
  The part of a \<^verbatim>\<open>ConfigObject\<close> that this file reads or writes. \<open>Fields\<close> are the
  reflection fields reached through \<^verbatim>\<open>GetField\<close>/\<^verbatim>\<open>SetField\<close>; \<open>Extensions\<close> holds the
  \<^verbatim>\<open>ConfigObjectDeleted\<close> marker.

  Modelled from the spec: the accessors of \<^verbatim>\<open>ConfigObject\<close>, which are not in this
  file. A setter writes the attribute of its name and a getter reads it, but
  for \<^verbatim>\<open>GetShortName\<close>, whose result is a parameter of the model.
\<close>

record ConfigObject =
  ReflectionType :: TypePtr
  ObjDebugInfo :: DebugInfo
  ZoneName :: string
  Package :: string
  CreationType :: string
  Name :: string
  ShortName :: string
  Active :: bool
  Extensions :: "string \<Rightarrow> bool option"
  Fields :: "nat \<Rightarrow> Value"

text \<open>
  A function object is either a script function, known only to the interpreter,
  or the function that \<^verbatim>\<open>ReloadObject\<close> wraps around its own lambda. An expression
  tree is either \<open>Compiled n\<close>, a tree that came from the compiler and is known
  only to the evaluator, or one of the expressions that \<^verbatim>\<open>ReloadObject\<close> builds.
\<close>

datatype Function = ScriptFunction FuncPtr | UpdateObjectFunc

datatype Expression =
    Compiled nat
  | ImportDefaultTemplatesExpression
  | MigrateCall ObjPtr
  | UpdateCall Function
  | DictExpression "Expression list"

text \<open>A script value, as far as the arguments of \<^verbatim>\<open>RunWithActivationContext\<close> go.\<close>

datatype ScriptValue = Empty | FunctionValue Function | ObjectValue ObjPtr

record ConfigItem =
  m_Type :: TypePtr
  m_Name :: string
  m_Abstract :: bool
  m_Expression :: "Expression option"
  m_Filter :: "Expression option"
  m_DefaultTmpl :: bool
  m_IgnoreOnError :: bool
  m_DebugInfo :: DebugInfo
  m_Scope :: "nat option"
  m_Zone :: string
  m_Package :: string
  m_CreationType :: string
  m_ActivationContext :: ContextPtr
  m_Object :: "ObjPtr option"

type_synonym ItemMap = "(string \<times> ItemPtr) list"
type_synonym TypeMap = "(TypePtr \<times> ItemMap) list"

text \<open>One record written by \<^verbatim>\<open>ConfigCompilerContext::WriteObject\<close>.\<close>

record PersistentItem =
  p_type :: string
  p_name :: string
  p_properties :: Value
  p_debug_hints :: Value
  p_debug_info :: "string \<times> int \<times> int \<times> int \<times> int"

text \<open>
  The process state that the items, the objects and the code called from this
  file can reach: the four static members of \<^verbatim>\<open>ConfigItem\<close>, the two heaps, the
  objects registered with their types, the stack of activation scopes and the
  records written so far.
\<close>

record World =
  m_Items :: TypeMap
  m_DefaultTemplates :: TypeMap
  m_UnnamedItems :: "ItemPtr list"
  m_IgnoredItems :: "string list"
  item_heap :: "ItemPtr \<Rightarrow> ConfigItem"
  next_item :: ItemPtr
  object_heap :: "ObjPtr \<Rightarrow> ConfigObject"
  next_object :: ObjPtr
  object_registry :: "TypePtr \<times> string \<Rightarrow> ObjPtr option"
  activation_stack :: "nat list"
  next_context :: nat
  written_objects :: "PersistentItem list"

text \<open>
  What an \<^verbatim>\<open>ostringstream\<close> message is made of: text, a string between
  single quotes, and values printed by their own \<^verbatim>\<open>operator<<\<close>, which is not
  in this file.
\<close>

datatype fragment = Text string | Quoted string | Loc DebugInfo | TypeVal TypePtr

text \<open>
  The exceptions, all derived from \<^verbatim>\<open>std::exception\<close>. A null dereference,
  which C++ leaves undefined, is given the value \<open>NullPointer\<close>.
\<close>

datatype error =
    ScriptError "fragment list" "DebugInfo option"
  | ValidationError string "Value option"
  | runtime_error string
  | OtherException string
  | NullPointer

text \<open>
  The collaborators of this file that live elsewhere: the type system, the
  expression evaluator, the hooks of the objects, script functions, the
  dependency graph and the serializer. They are parameters of the model. A hook
  gets the world and returns the world it leaves, with the exception it threw.
  \<open>GetAllTypes\<close> lists non-null types, \<open>IsAssignableFrom t\<close> is
  \<^verbatim>\<open>ConfigObject::TypeInstance->IsAssignableFrom(t)\<close>, \<open>MakeName t\<close> is the name
  composer of \<open>t\<close> if it has one, \<open>Instantiate t\<close> is the object that
  \<^verbatim>\<open>t->Instantiate\<close> builds, \<open>GetShortName obj\<close> is what \<^verbatim>\<open>GetShortName()\<close> returns
  for an object with these attributes, \<open>IsConfigField t i\<close> tells whether field \<open>i\<close> has the
  attribute \<^verbatim>\<open>FAConfig\<close>, \<open>Validate\<close> receives the \<^verbatim>\<open>ValidateName\<close> of the
  validation utilities, \<open>Invoke f self args\<close> calls a script function with its
  receiver and arguments, \<open>Serialize\<close> serializes under \<^verbatim>\<open>FAConfig\<close>, \<open>GetParents\<close> gives
  \<open>None\<close> for a parent that is not a config object, \<open>RestoreState new old\<close> is
  \<^verbatim>\<open>Deserialize(new, Serialize(old, FAState), false, FAState)\<close> and \<open>ModAttrs\<close> compiles
  and evaluates the file of modified attributes.
\<close>

record Externals =
  GetAllTypes :: "nat list"
  GetByName :: "string \<Rightarrow> TypePtr"
  GetName :: "nat \<Rightarrow> string"
  IsAssignableFrom :: "nat \<Rightarrow> bool"
  GetLoadDependencies :: "nat \<Rightarrow> string list"
  MakeName :: "nat \<Rightarrow> (string \<Rightarrow> ConfigObject \<Rightarrow> string) option"
  Instantiate :: "nat \<Rightarrow> ConfigObject"
  GetShortName :: "ConfigObject \<Rightarrow> string"
  GetFieldCount :: "nat \<Rightarrow> nat"
  IsConfigField :: "nat \<Rightarrow> nat \<Rightarrow> bool"
  GetField :: "ConfigObject \<Rightarrow> nat \<Rightarrow> Value"
  SetField :: "nat \<Rightarrow> Value \<Rightarrow> ConfigObject \<Rightarrow> ConfigObject"
  Evaluate :: "nat \<Rightarrow> nat option \<Rightarrow> ObjPtr \<Rightarrow> World \<Rightarrow> (error + Value) \<times> World"
  ImportDefaultTemplates :: "ObjPtr \<Rightarrow> World \<Rightarrow> (error + Value) \<times> World"
  Invoke :: "FuncPtr \<Rightarrow> ObjPtr option \<Rightarrow> ScriptValue list \<Rightarrow> World \<Rightarrow> error option \<times> World"
  Validate :: "(string \<Rightarrow> string \<Rightarrow> World \<Rightarrow> bool) \<Rightarrow> ObjPtr \<Rightarrow> World \<Rightarrow> error option \<times> World"
  Serialize :: "ObjPtr \<Rightarrow> World \<Rightarrow> Value"
  OnConfigLoaded :: "ObjPtr \<Rightarrow> World \<Rightarrow> error option \<times> World"
  OnAllConfigLoaded :: "ObjPtr \<Rightarrow> World \<Rightarrow> error option \<times> World"
  CreateChildObjects :: "ObjPtr \<Rightarrow> TypePtr \<Rightarrow> World \<Rightarrow> error option \<times> World"
  PreActivate :: "ObjPtr \<Rightarrow> World \<Rightarrow> error option \<times> World"
  Activate :: "ObjPtr \<Rightarrow> bool \<Rightarrow> World \<Rightarrow> error option \<times> World"
  Deactivate :: "ObjPtr \<Rightarrow> bool \<Rightarrow> World \<Rightarrow> error option \<times> World"
  GetParents :: "ObjPtr \<Rightarrow> World \<Rightarrow> ObjPtr option list"
  RestoreState :: "ObjPtr \<Rightarrow> ObjPtr \<Rightarrow> World \<Rightarrow> World"
  ModAttrs :: "World \<Rightarrow> World"

text \<open>
  The calls that leave this file, in the order in which they are made. The
  work queue and this record are out of reach of the hooks.
\<close>

datatype event =
    EvInstantiate TypePtr ObjPtr
  | EvEvaluate ItemPtr ObjPtr
  | EvValidate ObjPtr
  | EvOnConfigLoaded ObjPtr
  | EvWriteObject ObjPtr
  | EvRegisterObject ObjPtr
  | EvAllConfigLoaded nat ItemPtr TypePtr
  | EvCreateChildObjects ItemPtr TypePtr
  | EvJoin bool
  | EvPreActivate ObjPtr
  | EvActivate ObjPtr bool
  | EvDeactivate ObjPtr bool
  | EvSetExtension ObjPtr string bool
  | EvRegisterItem ItemPtr
  | EvOnAllConfigLoaded ObjPtr
  | EvRestoreState ObjPtr ObjPtr
  | EvUnlink string

record State =
  world :: World
  upq :: "error list"
  trace :: "event list"

text \<open>The events of the joins, and the events of the \<^verbatim>\<open>OnAllConfigLoaded\<close> tasks.\<close>

fun is_Join :: "event \<Rightarrow> bool" where
  "is_Join (EvJoin b) = True"
| "is_Join e = False"

fun is_AllConfigLoaded :: "event \<Rightarrow> bool" where
  "is_AllConfigLoaded (EvAllConfigLoaded depth item type) = True"
| "is_AllConfigLoaded e = False"

text \<open>The trace of \<open>s'\<close> is the trace of \<open>s\<close> and then events that all satisfy \<open>P\<close>.\<close>

definition extends_by :: "(event \<Rightarrow> bool) \<Rightarrow> State \<Rightarrow> State \<Rightarrow> bool" where
  "extends_by P s s' = (\<exists>evs. trace s' = trace s @ evs \<and> list_all P evs)"

text \<open>An event that is neither a join nor the event of an \<^verbatim>\<open>OnAllConfigLoaded\<close> task.\<close>

definition quiet :: "event \<Rightarrow> bool" where
  "quiet e = (\<not> is_Join e \<and> \<not> is_AllConfigLoaded e)"

text \<open>
  Between \<open>s\<close> and \<open>s'\<close> the trace grew, and \<open>r\<close> tells whether no join in between
  found an exception in the queue.
\<close>

definition joined :: "State \<Rightarrow> State \<Rightarrow> bool \<Rightarrow> bool" where
  "joined s s' r = (\<exists>evs. trace s' = trace s @ evs \<and> (r \<longleftrightarrow> EvJoin True \<notin> set evs))"

definition no_exception_observed :: "State \<Rightarrow> State \<Rightarrow> bool" where
  "no_exception_observed s s' = (\<exists>evs. trace s' = trace s @ evs \<and> EvJoin True \<notin> set evs)"

subsection \<open>Accessors\<close>

definition set_item :: "ItemPtr \<Rightarrow> (ConfigItem \<Rightarrow> ConfigItem) \<Rightarrow> World \<Rightarrow> World" where
  "set_item this f w = w\<lparr>item_heap := (item_heap w)(this := f (item_heap w this))\<rparr>"

definition set_object :: "ObjPtr \<Rightarrow> (ConfigObject \<Rightarrow> ConfigObject) \<Rightarrow> World \<Rightarrow> World" where
  "set_object obj f w = w\<lparr>object_heap := (object_heap w)(obj := f (object_heap w obj))\<rparr>"

text \<open>\<^verbatim>\<open>dynamic_cast<NameComposer *>(type.get())\<close>, null for the null type.\<close>

definition NameComposer :: "Externals \<Rightarrow> TypePtr \<Rightarrow> (string \<Rightarrow> ConfigObject \<Rightarrow> string) option" where
  "NameComposer X t = (case t of None \<Rightarrow> None | Some n \<Rightarrow> MakeName X n)"

text \<open>\<^verbatim>\<open>type->GetName()\<close>.\<close>

definition Type_GetName :: "Externals \<Rightarrow> TypePtr \<Rightarrow> error + string" where
  "Type_GetName X t = (case t of None \<Rightarrow> Inl NullPointer | Some n \<Rightarrow> Inr (GetName X n))"

text \<open>
  Modelled from the spec: \<^verbatim>\<open>ActivationContext::GetCurrentContext\<close>, which is not in
  this file. The current context is the innermost open scope.
\<close>

definition GetCurrentContext :: "World \<Rightarrow> ContextPtr" where
  "GetCurrentContext w = (case activation_stack w of [] \<Rightarrow> None | c # cs \<Rightarrow> Some c)"

text \<open>
  Modelled from the spec: \<^verbatim>\<open>ConfigObject::Register\<close>, \<^verbatim>\<open>ConfigObject::Unregister\<close> and
  \<^verbatim>\<open>ConfigType::GetObject\<close>, which are not in this file. The objects are owned by the
  registry of their type, under their name.
\<close>

definition ConfigObject_Register :: "ObjPtr \<Rightarrow> World \<Rightarrow> World" where
  "ConfigObject_Register obj w =
     w\<lparr>object_registry := (object_registry w)
        ((ReflectionType (object_heap w obj), Name (object_heap w obj)) := Some obj)\<rparr>"

definition ConfigObject_Unregister :: "ObjPtr \<Rightarrow> World \<Rightarrow> World" where
  "ConfigObject_Unregister obj w =
     w\<lparr>object_registry := (object_registry w)
        ((ReflectionType (object_heap w obj), Name (object_heap w obj)) := None)\<rparr>"

definition GetObject :: "TypePtr \<Rightarrow> string \<Rightarrow> World \<Rightarrow> ObjPtr option" where
  "GetObject t name w = object_registry w (t, name)"

subsection \<open>Register, Unregister, GetByTypeAndName\<close>

text \<open>The message of the exception that \<^verbatim>\<open>Register\<close> throws for a second definition.\<close>

definition DuplicateDefinition :: "string \<Rightarrow> string \<Rightarrow> DebugInfo \<Rightarrow> DebugInfo \<Rightarrow> error" where
  "DuplicateDefinition tname name existing new =
     ScriptError [Text ''A configuration item of type '', Quoted tname,
                  Text '' and name '', Quoted name, Text '' already exists ('',
                  Loc existing, Text ''), new declaration: '', Loc new] None"

definition Register :: "Externals \<Rightarrow> ItemPtr \<Rightarrow> World \<Rightarrow> error option \<times> World" where
  "Register X this w0 =
     (let w = set_item this (\<lambda>it. it\<lparr>m_ActivationContext := GetCurrentContext w0\<rparr>) w0;
          it = item_heap w this
      in if \<not> m_Abstract it \<and> NameComposer X (m_Type it) \<noteq> None
         then (None, w\<lparr>m_UnnamedItems := m_UnnamedItems w @ [this]\<rparr>)
         else
           (let tm = std_map_index TypePtr_less (m_Type it) [] (m_Items w);
                items = the (map_of tm (m_Type it))
            in case map_of items (m_Name it) of
                 Some existing \<Rightarrow>
                   (case Type_GetName X (m_Type it) of
                      Inl e \<Rightarrow> (Some e, w\<lparr>m_Items := tm\<rparr>)
                    | Inr tname \<Rightarrow>
                        (Some (DuplicateDefinition tname (m_Name it)
                                 (m_DebugInfo (item_heap w existing)) (m_DebugInfo it)),
                         w\<lparr>m_Items := tm\<rparr>))
               | None \<Rightarrow>
                   (let w1 = w\<lparr>m_Items := std_map_set TypePtr_less (m_Type it)
                                 (std_map_set String_less (m_Name it) this items) tm\<rparr>
                    in if m_DefaultTmpl it
                       then (let dm = std_map_index TypePtr_less (m_Type it) [] (m_DefaultTemplates w1);
                                 ditems = the (map_of dm (m_Type it))
                             in (None, w1\<lparr>m_DefaultTemplates := std_map_set TypePtr_less (m_Type it)
                                   (std_map_set String_less (m_Name it) this ditems) dm\<rparr>))
                       else (None, w1))))"

text \<open>\<^verbatim>\<open>map[type].erase(name)\<close>.\<close>

definition erase_name :: "TypePtr \<Rightarrow> string \<Rightarrow> TypeMap \<Rightarrow> TypeMap" where
  "erase_name t name m =
     (let tm = std_map_index TypePtr_less t [] m
      in std_map_set TypePtr_less t (std_map_erase name (the (map_of tm t))) tm)"

definition Unregister :: "ItemPtr \<Rightarrow> World \<Rightarrow> World" where
  "Unregister this w0 =
     (let w = (case m_Object (item_heap w0 this) of
                 Some obj \<Rightarrow> set_item this (\<lambda>it. it\<lparr>m_Object := None\<rparr>) (ConfigObject_Unregister obj w0)
               | None \<Rightarrow> w0);
          it = item_heap w this
      in w\<lparr>m_UnnamedItems := removeAll this (m_UnnamedItems w),
           m_Items := erase_name (m_Type it) (m_Name it) (m_Items w),
           m_DefaultTemplates := erase_name (m_Type it) (m_Name it) (m_DefaultTemplates w)\<rparr>)"

definition find_in :: "TypeMap \<Rightarrow> TypePtr \<Rightarrow> string \<Rightarrow> ItemPtr option" where
  "find_in m t name =
     (case map_of m t of None \<Rightarrow> None | Some items \<Rightarrow> map_of items name)"

definition GetByTypeAndName :: "TypePtr \<Rightarrow> string \<Rightarrow> World \<Rightarrow> ItemPtr option" where
  "GetByTypeAndName t name w = find_in (m_Items w) t name"

text \<open>
  An item is in none of the three indices and has no object; an object is not
  registered with its type.
\<close>

definition unregistered :: "World \<Rightarrow> ItemPtr \<Rightarrow> bool" where
  "unregistered w item =
     (item \<notin> set (m_UnnamedItems w)
      \<and> GetByTypeAndName (m_Type (item_heap w item)) (m_Name (item_heap w item)) w = None
      \<and> find_in (m_DefaultTemplates w) (m_Type (item_heap w item)) (m_Name (item_heap w item)) = None
      \<and> m_Object (item_heap w item) = None)"

definition object_unregistered :: "World \<Rightarrow> ObjPtr \<Rightarrow> bool" where
  "object_unregistered w obj =
     (GetObject (ReflectionType (object_heap w obj)) (Name (object_heap w obj)) w = None)"

subsection \<open>RemoveIgnoredItems\<close>

fun RemoveIgnoredItems_loop :: "string \<Rightarrow> string list \<Rightarrow> event list \<Rightarrow> event list" where
  "RemoveIgnoredItems_loop allowedConfigPath [] tr = tr"
| "RemoveIgnoredItems_loop allowedConfigPath (path # paths) tr =
     (if Find path allowedConfigPath = None
      then RemoveIgnoredItems_loop allowedConfigPath paths tr
      else RemoveIgnoredItems_loop allowedConfigPath paths (tr @ [EvUnlink path]))"

definition RemoveIgnoredItems :: "string \<Rightarrow> State \<Rightarrow> State" where
  "RemoveIgnoredItems allowedConfigPath s =
     s\<lparr>trace := RemoveIgnoredItems_loop allowedConfigPath (m_IgnoredItems (world s)) (trace s),
       world := (world s)\<lparr>m_IgnoredItems := []\<rparr>\<rparr>"


subsection \<open>Construction\<close>

text \<open>The constructor of \<^verbatim>\<open>ConfigItem\<close>: no activation context and no object yet.\<close>

definition ConfigItem_new ::
  "TypePtr \<Rightarrow> string \<Rightarrow> bool \<Rightarrow> Expression option \<Rightarrow> Expression option \<Rightarrow> bool \<Rightarrow> bool \<Rightarrow>
   DebugInfo \<Rightarrow> nat option \<Rightarrow> string \<Rightarrow> string \<Rightarrow> string \<Rightarrow> ConfigItem" where
  "ConfigItem_new type name abstract exprl flt defaultTmpl ignoreOnError debuginfo scope
     zone package creationType =
     \<lparr>m_Type = type, m_Name = name, m_Abstract = abstract, m_Expression = exprl,
      m_Filter = flt, m_DefaultTmpl = defaultTmpl, m_IgnoreOnError = ignoreOnError,
      m_DebugInfo = debuginfo, m_Scope = scope, m_Zone = zone, m_Package = package,
      m_CreationType = creationType, m_ActivationContext = None, m_Object = None\<rparr>"

definition DebugInfo_at :: "string \<Rightarrow> int \<Rightarrow> DebugInfo" where
  "DebugInfo_at path line =
     \<lparr>Path = path, FirstLine = line, FirstColumn = 1, LastLine = line, LastColumn = 1\<rparr>"

text \<open>An object with every attribute empty.\<close>

definition ConfigObject_blank :: "TypePtr \<Rightarrow> ConfigObject" where
  "ConfigObject_blank t =
     \<lparr>ReflectionType = t, ObjDebugInfo = DebugInfo_at [] 0, ZoneName = [], Package = [],
      CreationType = [], Name = [], ShortName = [], Active = False,
      Extensions = (\<lambda>k. None), Fields = (\<lambda>i. [])\<rparr>"

text \<open>The state of a process that has registered nothing.\<close>

definition World_init :: World where
  "World_init =
     \<lparr>m_Items = [], m_DefaultTemplates = [], m_UnnamedItems = [], m_IgnoredItems = [],
      item_heap = (\<lambda>p. ConfigItem_new None [] False None None False False (DebugInfo_at [] 0)
                         None [] [] []),
      next_item = 0,
      object_heap = (\<lambda>p. ConfigObject_blank None), next_object = 0,
      object_registry = (\<lambda>k. None), activation_stack = [], next_context = 0,
      written_objects = []\<rparr>"

definition State_init :: "World \<Rightarrow> State" where
  "State_init w = \<lparr>world = w, upq = [], trace = []\<rparr>"

text \<open>\<^verbatim>\<open>new ConfigItem(...)\<close>: the item is stored at the next free address.\<close>

definition new_ConfigItem :: "ConfigItem \<Rightarrow> World \<Rightarrow> ItemPtr \<times> World" where
  "new_ConfigItem it w =
     (next_item w, w\<lparr>item_heap := (item_heap w)(next_item w := it), next_item := Suc (next_item w)\<rparr>)"

subsection \<open>Commit\<close>

definition log_event :: "event \<Rightarrow> State \<Rightarrow> State" where
  "log_event e s = s\<lparr>trace := trace s @ [e]\<rparr>"

definition in_world :: "(World \<Rightarrow> World) \<Rightarrow> State \<Rightarrow> State" where
  "in_world f s = s\<lparr>world := f (world s)\<rparr>"

definition call_hook :: "(World \<Rightarrow> 'a \<times> World) \<Rightarrow> State \<Rightarrow> 'a \<times> State" where
  "call_hook h s = (case h (world s) of (r, w) \<Rightarrow> (r, s\<lparr>world := w\<rparr>))"

text \<open>\<^verbatim>\<open>DefaultValidationUtils::ValidateName\<close>.\<close>

definition ValidateName :: "Externals \<Rightarrow> string \<Rightarrow> string \<Rightarrow> World \<Rightarrow> bool" where
  "ValidateName X type name w =
     (case GetByTypeAndName (GetByName X type) name w of
        None \<Rightarrow> False
      | Some item \<Rightarrow> \<not> m_Abstract (item_heap w item))"

text \<open>\<^verbatim>\<open>MigrateObjectAttributes\<close>: the config fields of the source, copied one by one.\<close>

definition MigrateObjectAttributes :: "Externals \<Rightarrow> ObjPtr \<Rightarrow> ObjPtr \<Rightarrow> World \<Rightarrow> error option \<times> World" where
  "MigrateObjectAttributes X source destination w =
     (case ReflectionType (object_heap w source) of
        None \<Rightarrow> (Some NullPointer, w)
      | Some t \<Rightarrow>
          (None, foldl (\<lambda>w fid.
                    if \<not> IsConfigField X t fid then w
                    else set_object destination
                           (SetField X fid (GetField X (object_heap w source) fid)) w)
                  w [0..<GetFieldCount X t]))"

text \<open>
  \<^verbatim>\<open>Expression::Evaluate\<close> with \<open>this\<close> bound to the object. The result is the debug
  hints collected. A function call expression throws what the function throws;
  the wrapped lambda of \<^verbatim>\<open>ReloadObject\<close> takes two arguments and is given none here.
\<close>

fun EvaluateExpr :: "Externals \<Rightarrow> Expression \<Rightarrow> nat option \<Rightarrow> ObjPtr \<Rightarrow> World \<Rightarrow> (error + Value) \<times> World"
and EvaluateExprs :: "Externals \<Rightarrow> Expression list \<Rightarrow> nat option \<Rightarrow> ObjPtr \<Rightarrow> World \<Rightarrow> (error + Value) \<times> World" where
  "EvaluateExpr X (Compiled n) scope this w = Evaluate X n scope this w"
| "EvaluateExpr X ImportDefaultTemplatesExpression scope this w = ImportDefaultTemplates X this w"
| "EvaluateExpr X (MigrateCall source) scope this w =
     (case MigrateObjectAttributes X source this w of
        (Some e, w') \<Rightarrow> (Inl e, w')
      | (None, w') \<Rightarrow> (Inr [], w'))"
| "EvaluateExpr X (UpdateCall callback) scope this w =
     (case callback of
        UpdateObjectFunc \<Rightarrow> (Inl (ScriptError [Text ''Too few arguments for function.''] None), w)
      | ScriptFunction f \<Rightarrow>
          (case Invoke X f (Some this) [] w of
             (Some e, w') \<Rightarrow> (Inl e, w')
           | (None, w') \<Rightarrow> (Inr [], w')))"
| "EvaluateExpr X (DictExpression es) scope this w = EvaluateExprs X es scope this w"
| "EvaluateExprs X [] scope this w = (Inr [], w)"
| "EvaluateExprs X (e # es) scope this w =
     (case EvaluateExpr X e scope this w of
        (Inl err, w') \<Rightarrow> (Inl err, w')
      | (Inr hints, w') \<Rightarrow>
          (case EvaluateExprs X es scope this w' of
             (Inl err, w'') \<Rightarrow> (Inl err, w'')
           | (Inr hints', w'') \<Rightarrow> (Inr (hints @ hints'), w'')))"

text \<open>The exceptions that \<^verbatim>\<open>Commit\<close> throws itself.\<close>

definition UnknownType :: "TypePtr \<Rightarrow> DebugInfo \<Rightarrow> error" where
  "UnknownType t di = ScriptError [Text ''Type '', TypeVal t, Text '' does not exist.''] (Some di)"

definition EmptyName :: "DebugInfo \<Rightarrow> error" where
  "EmptyName di = ScriptError [Text ''Object name must not be empty.''] (Some di)"

definition NameComposerFailure :: error where
  "NameComposerFailure = runtime_error ''Could not determine name for object''"

text \<open>
  \<^verbatim>\<open>Commit\<close> is cut into its consecutive blocks. A block either ends the function,
  with an exception or with the value returned (\<open>Inl\<close>), or hands on to the next
  block (\<open>Inr\<close>). The setters of the object write its attributes: \<^verbatim>\<open>SetName\<close>
  writes \<open>Name\<close> and \<^verbatim>\<open>SetShortName\<close> writes \<open>ShortName\<close>. What \<^verbatim>\<open>GetShortName\<close>
  returns is left to the parameter \<open>GetShortName\<close>.
\<close>

type_synonym 'a step = "((error + ObjPtr option) + 'a) \<times> State"

text \<open>The path of the item joins the ignored items and \<^verbatim>\<open>Commit\<close> returns null.\<close>

definition ignore_item :: "ItemPtr \<Rightarrow> State \<Rightarrow> State" where
  "ignore_item this s =
     in_world (\<lambda>w. w\<lparr>m_IgnoredItems :=
        m_IgnoredItems w @ [Path (m_DebugInfo (item_heap w this))]\<rparr>) s"

text \<open>Lines 185 to 199: the type check, the abstract check, the new object.\<close>

definition Commit_begin :: "Externals \<Rightarrow> ItemPtr \<Rightarrow> State \<Rightarrow> ObjPtr step" where
  "Commit_begin X this s =
     (let it = item_heap (world s) this
      in case m_Type it of
           None \<Rightarrow> (Inl (Inl (UnknownType None (m_DebugInfo it))), s)
         | Some t \<Rightarrow>
             if \<not> IsAssignableFrom X t then (Inl (Inl (UnknownType (Some t) (m_DebugInfo it))), s)
             else if m_Abstract it then (Inl (Inr None), s)
             else
               (let dobj = next_object (world s);
                    blank = (Instantiate X t)\<lparr>ReflectionType := Some t\<rparr>
                in (Inr dobj,
                    log_event (EvInstantiate (Some t) dobj)
                      (in_world (\<lambda>w. w\<lparr>object_heap := (object_heap w)
                           (dobj := blank\<lparr>ObjDebugInfo := m_DebugInfo it, ZoneName := m_Zone it,
                                          Package := m_Package it, CreationType := m_CreationType it,
                                          Name := m_Name it\<rparr>),
                         next_object := Suc dobj\<rparr>) s))))"

text \<open>Lines 201 to 225: the expression is evaluated on the object.\<close>

definition Commit_evaluate :: "Externals \<Rightarrow> ItemPtr \<Rightarrow> bool \<Rightarrow> ObjPtr \<Rightarrow> State \<Rightarrow> Value step" where
  "Commit_evaluate X this discard dobj s =
     (let it = item_heap (world s) this
      in case m_Expression it of
           None \<Rightarrow> (Inl (Inl NullPointer), s)
         | Some expr \<Rightarrow>
             (case call_hook (EvaluateExpr X expr (m_Scope it) dobj) (log_event (EvEvaluate this dobj) s) of
                (Inl ex, s') \<Rightarrow>
                  if m_IgnoreOnError it then (Inl (Inr None), ignore_item this s')
                  else (Inl (Inl ex), s')
              | (Inr debugHints, s') \<Rightarrow>
                  (Inr debugHints,
                   if discard then in_world (set_item this (\<lambda>it. it\<lparr>m_Expression := None\<rparr>)) s'
                   else s')))"

text \<open>Lines 227 to 253: the name of the object.\<close>

definition Commit_name :: "Externals \<Rightarrow> ItemPtr \<Rightarrow> ObjPtr \<Rightarrow> State \<Rightarrow> unit step" where
  "Commit_name X this dobj s =
     (let it = item_heap (world s) this;
          short_name = GetShortName X (object_heap (world s) dobj);
          item_name = (if short_name \<noteq> [] then short_name else m_Name it);
          s1 = (if short_name \<noteq> [] then in_world (set_object dobj (\<lambda>obj. obj\<lparr>Name := short_name\<rparr>)) s
                else s)
      in case NameComposer X (m_Type it) of
           None \<Rightarrow> (Inr (), in_world (set_object dobj (\<lambda>obj. obj\<lparr>Name := item_name\<rparr>)) s1)
         | Some nc \<Rightarrow>
             if item_name = [] then (Inl (Inl (EmptyName (m_DebugInfo it))), s1)
             else
               (let name = nc item_name (object_heap (world s1) dobj)
                in if name = [] then (Inl (Inl NameComposerFailure), s1)
                   else (Inr (),
                         in_world (set_object dobj (\<lambda>obj. obj\<lparr>Name := name\<rparr>))
                           (if name \<noteq> item_name
                            then in_world (set_object dobj (\<lambda>obj. obj\<lparr>ShortName := item_name\<rparr>)) s1
                            else s1))))"

text \<open>Lines 255 to 275: validation; only a \<^verbatim>\<open>ValidationError\<close> is caught.\<close>

definition Commit_validate :: "Externals \<Rightarrow> ItemPtr \<Rightarrow> ObjPtr \<Rightarrow> Value \<Rightarrow> State \<Rightarrow> unit step" where
  "Commit_validate X this dobj dhint s =
     (let it = item_heap (world s) this
      in case call_hook (Validate X (ValidateName X) dobj) (log_event (EvValidate dobj) s) of
           (None, s') \<Rightarrow> (Inr (), s')
         | (Some (ValidationError msg hint), s') \<Rightarrow>
             if m_IgnoreOnError it then (Inl (Inr None), ignore_item this s')
             else (Inl (Inl (ValidationError msg (Some dhint))), s')
         | (Some ex, s') \<Rightarrow> (Inl (Inl ex), s'))"

text \<open>Lines 277 to 293: \<^verbatim>\<open>OnConfigLoaded\<close>.\<close>

definition Commit_loaded :: "Externals \<Rightarrow> ItemPtr \<Rightarrow> ObjPtr \<Rightarrow> State \<Rightarrow> unit step" where
  "Commit_loaded X this dobj s =
     (let it = item_heap (world s) this
      in case call_hook (OnConfigLoaded X dobj) (log_event (EvOnConfigLoaded dobj) s) of
           (None, s') \<Rightarrow> (Inr (), s')
         | (Some ex, s') \<Rightarrow>
             if m_IgnoreOnError it then (Inl (Inr None), ignore_item this s')
             else (Inl (Inl ex), s'))"

text \<open>
  Lines 295 to 319: the record for the compiler context, the registration of the
  object, and the object is attached to the item.
\<close>

definition Commit_finish :: "Externals \<Rightarrow> ItemPtr \<Rightarrow> ObjPtr \<Rightarrow> Value \<Rightarrow> State \<Rightarrow> (error + ObjPtr option) \<times> State" where
  "Commit_finish X this dobj dhint s =
     (let it = item_heap (world s) this;
          di = m_DebugInfo it
      in case Type_GetName X (m_Type it) of
           Inl ex \<Rightarrow> (Inl ex, s)
         | Inr tname \<Rightarrow>
             (let persistentItem =
                    \<lparr>p_type = tname, p_name = m_Name it,
                     p_properties = Serialize X dobj (world s), p_debug_hints = dhint,
                     p_debug_info = (Path di, FirstLine di, FirstColumn di, LastLine di, LastColumn di)\<rparr>;
                  s1 = log_event (EvWriteObject dobj)
                         (in_world (\<lambda>w. w\<lparr>written_objects := written_objects w @ [persistentItem]\<rparr>) s);
                  s2 = log_event (EvRegisterObject dobj) (in_world (ConfigObject_Register dobj) s1)
              in (Inr (Some dobj),
                  in_world (set_item this (\<lambda>it. it\<lparr>m_Object := Some dobj\<rparr>)) s2)))"

definition Commit :: "Externals \<Rightarrow> ItemPtr \<Rightarrow> bool \<Rightarrow> State \<Rightarrow> (error + ObjPtr option) \<times> State" where
  "Commit X this discard s =
     (case Commit_begin X this s of
        (Inl r, s0) \<Rightarrow> (r, s0)
      | (Inr dobj, s1) \<Rightarrow>
     (case Commit_evaluate X this discard dobj s1 of
        (Inl r, s0) \<Rightarrow> (r, s0)
      | (Inr debugHints, s2) \<Rightarrow>
     (case Commit_name X this dobj s2 of
        (Inl r, s0) \<Rightarrow> (r, s0)
      | (Inr u, s3) \<Rightarrow>
     (case Commit_validate X this dobj debugHints s3 of
        (Inl r, s0) \<Rightarrow> (r, s0)
      | (Inr u, s4) \<Rightarrow>
     (case Commit_loaded X this dobj s4 of
        (Inl r, s0) \<Rightarrow> (r, s0)
      | (Inr u, s5) \<Rightarrow> Commit_finish X this dobj debugHints s5)))))"

subsection \<open>The work queue and the activation scopes\<close>

text \<open>
  Modelled from the spec: the work queue, which is not in this file. A task that
  throws stores its exception in the queue and returns; a join waits for every
  task enqueued so far. The tasks between two joins are run one after the other,
  in the order in which they were enqueued, and the condition under which the
  source enqueues a task is evaluated before the first of them runs. \<open>Join\<close> is
  \<^verbatim>\<open>upq.Join()\<close> followed by \<^verbatim>\<open>upq.HasExceptions()\<close>.
\<close>

definition Enqueue :: "(State \<Rightarrow> error option \<times> State) \<Rightarrow> State \<Rightarrow> State" where
  "Enqueue task s =
     (case task s of
        (None, s') \<Rightarrow> s'
      | (Some ex, s') \<Rightarrow> s'\<lparr>upq := upq s' @ [ex]\<rparr>)"

definition Join :: "State \<Rightarrow> bool \<times> State" where
  "Join s = (upq s \<noteq> [], log_event (EvJoin (upq s \<noteq> [])) s)"

text \<open>
  Modelled from the spec: \<^verbatim>\<open>ActivationScope\<close>, which is not in this file. Opening
  a scope on a null context makes a new context; the scope is left when the
  block ends, also by an exception.
\<close>

definition ActivationScope_enter :: "ContextPtr \<Rightarrow> World \<Rightarrow> nat \<times> World" where
  "ActivationScope_enter context w =
     (case context of
        Some c \<Rightarrow> (c, w\<lparr>activation_stack := c # activation_stack w\<rparr>)
      | None \<Rightarrow> (next_context w,
                 w\<lparr>activation_stack := next_context w # activation_stack w,
                   next_context := Suc (next_context w)\<rparr>))"

definition ActivationScope_leave :: "World \<Rightarrow> World" where
  "ActivationScope_leave w = w\<lparr>activation_stack := tl (activation_stack w)\<rparr>"

text \<open>Steps that can throw, run in order up to the first exception.\<close>

fun run_steps :: "(State \<Rightarrow> error option \<times> State) list \<Rightarrow> State \<Rightarrow> error option \<times> State" where
  "run_steps [] s = (None, s)"
| "run_steps (f # fs) s =
     (case f s of
        (Some ex, s') \<Rightarrow> (Some ex, s')
      | (None, s') \<Rightarrow> run_steps fs s')"

definition hook_step :: "event \<Rightarrow> (World \<Rightarrow> error option \<times> World) \<Rightarrow> State \<Rightarrow> error option \<times> State" where
  "hook_step e h s = call_hook h (log_event e s)"

definition pure_step :: "event \<Rightarrow> (World \<Rightarrow> World) \<Rightarrow> State \<Rightarrow> error option \<times> State" where
  "pure_step e f s = (None, in_world f (log_event e s))"

subsection \<open>CommitNewItems\<close>

text \<open>Lines 400 to 430: the candidates, and the unnamed items that stay.\<close>

definition uncommitted :: "World \<Rightarrow> ItemPtr \<Rightarrow> bool" where
  "uncommitted w item =
     (\<not> (m_Abstract (item_heap w item) \<or> m_Object (item_heap w item) \<noteq> None))"

definition named_candidates :: "ContextPtr \<Rightarrow> World \<Rightarrow> (ItemPtr \<times> bool) list" where
  "named_candidates context w =
     concat (map (\<lambda>kv. map (\<lambda>kv2. (snd kv2, False))
                    (filter (\<lambda>kv2. uncommitted w (snd kv2)
                               \<and> m_ActivationContext (item_heap w (snd kv2)) = context)
                       (snd kv)))
               (m_Items w))"

definition unnamed_candidates :: "ContextPtr \<Rightarrow> World \<Rightarrow> (ItemPtr \<times> bool) list" where
  "unnamed_candidates context w =
     map (\<lambda>item. (item, True))
       (filter (\<lambda>item. m_ActivationContext (item_heap w item) = context \<and> uncommitted w item)
          (m_UnnamedItems w))"

definition newUnnamedItems :: "ContextPtr \<Rightarrow> World \<Rightarrow> ItemPtr list" where
  "newUnnamedItems context w =
     filter (\<lambda>item. m_ActivationContext (item_heap w item) \<noteq> context) (m_UnnamedItems w)"

definition Commit_task :: "Externals \<Rightarrow> ItemPtr \<times> bool \<Rightarrow> State \<Rightarrow> error option \<times> State" where
  "Commit_task X ip s =
     (case Commit X (fst ip) (snd ip) s of
        (Inl ex, s') \<Rightarrow> (Some ex, s')
      | (Inr dobj, s') \<Rightarrow> (None, s'))"

text \<open>A \<^verbatim>\<open>std::set\<close> of type pointers: a list in address order, without duplicates.\<close>

definition std_set_insert :: "nat \<Rightarrow> nat list \<Rightarrow> nat list" where
  "std_set_insert x xs = (if x \<in> set xs then xs else insort x xs)"

text \<open>Lines 447 to 452.\<close>

definition config_types :: "Externals \<Rightarrow> nat list" where
  "config_types X =
     foldl (\<lambda>types type. if IsAssignableFrom X type then std_set_insert type types else types)
       [] (GetAllTypes X)"

text \<open>Lines 461 to 470.\<close>

definition unresolved_dep :: "Externals \<Rightarrow> nat list \<Rightarrow> nat list \<Rightarrow> nat \<Rightarrow> bool" where
  "unresolved_dep X types completed_types type =
     list_ex (\<lambda>loadDep.
        case GetByName X loadDep of
          None \<Rightarrow> False
        | Some pLoadDep \<Rightarrow> pLoadDep \<in> set types \<and> pLoadDep \<notin> set completed_types)
       (GetLoadDependencies X type)"

text \<open>
  Lines 482 to 502: the task for one item of the type. The first argument of the
  event is the depth of the re-entry of \<^verbatim>\<open>CommitNewItems\<close> that enqueued the task.
\<close>

definition OnAllConfigLoaded_task :: "Externals \<Rightarrow> nat \<Rightarrow> nat \<Rightarrow> ItemPtr \<Rightarrow> State \<Rightarrow> error option \<times> State" where
  "OnAllConfigLoaded_task X depth type item s =
     (case m_Object (item_heap (world s) item) of
        None \<Rightarrow> (Some NullPointer, s)
      | Some obj \<Rightarrow>
          (case hook_step (EvAllConfigLoaded depth item (Some type)) (OnAllConfigLoaded X obj) s of
             (None, s') \<Rightarrow> (None, s')
           | (Some ex, s') \<Rightarrow>
               if m_IgnoreOnError (item_heap (world s') item)
               then (None, ignore_item item (in_world (Unregister item) s'))
               else (Some ex, s')))"

text \<open>Lines 521 to 524.\<close>

definition CreateChildObjects_task :: "Externals \<Rightarrow> nat \<Rightarrow> ItemPtr \<Rightarrow> State \<Rightarrow> error option \<times> State" where
  "CreateChildObjects_task X type item s =
     (let s1 = in_world (\<lambda>w. snd (ActivationScope_enter (m_ActivationContext (item_heap w item)) w)) s
      in case m_Object (item_heap (world s1) item) of
           None \<Rightarrow> (Some NullPointer, in_world ActivationScope_leave s1)
         | Some obj \<Rightarrow>
             (case hook_step (EvCreateChildObjects item (Some type))
                     (CreateChildObjects X obj (Some type)) s1 of
                (r, s2) \<Rightarrow> (r, in_world ActivationScope_leave s2)))"

text \<open>Lines 475 to 481: the items whose \<^verbatim>\<open>OnAllConfigLoaded\<close> is enqueued for a type.\<close>

definition loaded_items :: "nat \<Rightarrow> World \<Rightarrow> (ItemPtr \<times> bool) list \<Rightarrow> ItemPtr list" where
  "loaded_items type w items =
     filter (\<lambda>item. m_Object (item_heap w item) \<noteq> None \<and> m_Type (item_heap w item) = Some type)
       (map fst items)"

text \<open>
  Lines 513 to 520: the items whose \<^verbatim>\<open>CreateChildObjects\<close> is enqueued for a type.
  An item with an object has passed the type check of \<^verbatim>\<open>Commit\<close>.
\<close>

definition parent_items :: "Externals \<Rightarrow> nat \<Rightarrow> World \<Rightarrow> (ItemPtr \<times> bool) list \<Rightarrow> ItemPtr list" where
  "parent_items X type w items =
     concat (map (\<lambda>loadDep.
                filter (\<lambda>item. m_Object (item_heap w item) \<noteq> None
                          \<and> (case m_Type (item_heap w item) of
                               None \<Rightarrow> False
                             | Some t \<Rightarrow> GetName X t = loadDep))
                  (map fst items))
             (GetLoadDependencies X type))"

text \<open>
  The three places where tasks are enqueued and joined: lines 435 to 445, lines
  475 to 511 and lines 513 to 532. The value is what \<^verbatim>\<open>HasExceptions\<close> says after
  the join.
\<close>

definition commit_phase :: "Externals \<Rightarrow> (ItemPtr \<times> bool) list \<Rightarrow> State \<Rightarrow> bool \<times> State" where
  "commit_phase X items s = Join (foldl (\<lambda>s ip. Enqueue (Commit_task X ip) s) s items)"

definition load_phase :: "Externals \<Rightarrow> nat \<Rightarrow> nat \<Rightarrow> (ItemPtr \<times> bool) list \<Rightarrow> State \<Rightarrow> bool \<times> State" where
  "load_phase X depth type items s =
     Join (foldl (\<lambda>s item. Enqueue (OnAllConfigLoaded_task X depth type item) s) s
             (loaded_items type (world s) items))"

definition children_phase :: "Externals \<Rightarrow> nat \<Rightarrow> (ItemPtr \<times> bool) list \<Rightarrow> State \<Rightarrow> bool \<times> State" where
  "children_phase X type items s =
     Join (foldl (\<lambda>s item. Enqueue (CreateChildObjects_task X type item) s) s
             (parent_items X type (world s) items))"

text \<open>
  \<open>LoadDependency X A B\<close>: the type \<open>B\<close> is a config object type that the load
  dependencies of \<open>A\<close> name. \<open>loaded_in_order X depth evs\<close>: among the events of the
  \<^verbatim>\<open>OnAllConfigLoaded\<close> tasks that the call at this depth enqueued, none for a type
  comes after one for a type that depends on it, directly or through other
  config object types. \<open>loaded_after_join X depth evs\<close>: when the call at this depth
  enqueued a task for an item of \<open>B\<close> and a task for an item of \<open>A\<close>, and \<open>A\<close>
  depends on \<open>B\<close>, directly or through other config object types, then the event
  of the first comes before the event of the second and a join lies between
  the two. Every join is on the one work queue of the run and waits for all the
  tasks enqueued before it.
\<close>

definition LoadDependency :: "Externals \<Rightarrow> nat \<Rightarrow> nat \<Rightarrow> bool" where
  "LoadDependency X A B =
     (B \<in> set (config_types X) \<and> (\<exists>loadDep \<in> set (GetLoadDependencies X A). GetByName X loadDep = Some B))"

definition loaded_in_order :: "Externals \<Rightarrow> nat \<Rightarrow> event list \<Rightarrow> bool" where
  "loaded_in_order X depth evs =
     sorted_wrt (\<lambda>e e'. \<forall>i j A B.
        e = EvAllConfigLoaded depth i (Some A) \<and> e' = EvAllConfigLoaded depth j (Some B) \<longrightarrow>
        \<not> (LoadDependency X)\<^sup>+\<^sup>+ A B) evs"

definition loaded_after_join :: "Externals \<Rightarrow> nat \<Rightarrow> event list \<Rightarrow> bool" where
  "loaded_after_join X depth evs =
     (\<forall>p q i j A B.
        p < length evs \<and> q < length evs
        \<and> evs ! p = EvAllConfigLoaded depth i (Some B) \<and> evs ! q = EvAllConfigLoaded depth j (Some A)
        \<and> (LoadDependency X)\<^sup>+\<^sup>+ A B \<longrightarrow>
        (\<exists>k. p < k \<and> k < q \<and> is_Join (evs ! k)))"

text \<open>
  What the proof of the order keeps track of. \<open>joined_between\<close>: a join lies
  between two events of this depth that are for different types. \<open>level\<close>: the
  events are in order, joins lie between them, no event of this depth is for a
  type in \<open>C\<close> or for a type that depends on itself, and no event is of a smaller
  depth. \<open>deps_closed\<close>: a set of types holds the load dependencies of its members.
  \<open>leveled\<close> and \<open>below\<close>: the trace grew by such events, or by events of greater
  depth only.
\<close>

definition joined_between :: "nat \<Rightarrow> event list \<Rightarrow> bool" where
  "joined_between depth evs =
     (\<forall>p q i j A B.
        p < q \<and> q < length evs
        \<and> evs ! p = EvAllConfigLoaded depth i (Some A) \<and> evs ! q = EvAllConfigLoaded depth j (Some B)
        \<and> A \<noteq> B \<longrightarrow>
        (\<exists>k. p < k \<and> k < q \<and> is_Join (evs ! k)))"

definition level :: "Externals \<Rightarrow> nat \<Rightarrow> nat set \<Rightarrow> event list \<Rightarrow> bool" where
  "level X depth C evs =
     (loaded_in_order X depth evs
      \<and> joined_between depth evs
      \<and> (\<forall>i T. EvAllConfigLoaded depth i (Some T) \<in> set evs \<longrightarrow>
             T \<notin> C \<and> \<not> (LoadDependency X)\<^sup>+\<^sup>+ T T)
      \<and> (\<forall>d i t. EvAllConfigLoaded d i t \<in> set evs \<longrightarrow> depth \<le> d))"

definition deps_closed :: "Externals \<Rightarrow> nat set \<Rightarrow> bool" where
  "deps_closed X C = (\<forall>T \<in> C. \<forall>U. LoadDependency X T U \<longrightarrow> U \<in> C)"

definition leveled :: "Externals \<Rightarrow> nat \<Rightarrow> nat set \<Rightarrow> State \<Rightarrow> State \<Rightarrow> bool" where
  "leveled X depth C s s' = (\<exists>evs. trace s' = trace s @ evs \<and> level X depth C evs)"

definition below :: "nat \<Rightarrow> State \<Rightarrow> State \<Rightarrow> bool" where
  "below depth s s' =
     (\<exists>evs. trace s' = trace s @ evs \<and> (\<forall>d i t. EvAllConfigLoaded d i t \<in> set evs \<longrightarrow> Suc depth \<le> d))"

text \<open>
  \<^verbatim>\<open>CommitNewItems\<close> calls itself and both of its loops can run forever, so the
  model counts its steps down from \<open>fuel\<close> and \<open>None\<close> says that the fuel did not
  suffice. \<open>CommitNewItems_types\<close> is the loop over the types, with what is left
  of the current pass of the inner \<^verbatim>\<open>for\<close> as its seventh argument; the empty list
  is the test of the \<^verbatim>\<open>while\<close>. The result is the value returned, the state and
  \<^verbatim>\<open>newItems\<close>.
\<close>

fun CommitNewItems ::
  "nat \<Rightarrow> Externals \<Rightarrow> ContextPtr \<Rightarrow> nat \<Rightarrow> State \<Rightarrow> ItemPtr list \<Rightarrow> (bool \<times> State \<times> ItemPtr list) option"
and CommitNewItems_types ::
  "nat \<Rightarrow> Externals \<Rightarrow> ContextPtr \<Rightarrow> nat \<Rightarrow> (ItemPtr \<times> bool) list \<Rightarrow> nat list \<Rightarrow> nat list \<Rightarrow> nat list \<Rightarrow>
   State \<Rightarrow> ItemPtr list \<Rightarrow> (bool \<times> State \<times> ItemPtr list) option" where
  "CommitNewItems 0 X context depth s newItems = None"
| "CommitNewItems (Suc fuel) X context depth s newItems =
     (let items = named_candidates context (world s) @ unnamed_candidates context (world s);
          s1 = in_world (\<lambda>w. w\<lparr>m_UnnamedItems := newUnnamedItems context w\<rparr>) s
      in if items = [] then Some (True, s1, newItems)
         else
           (case commit_phase X items s1 of
              (True, s2) \<Rightarrow> Some (False, s2, newItems @ map fst items)
            | (False, s2) \<Rightarrow>
                CommitNewItems_types fuel X context depth items (config_types X) [] [] s2
                  (newItems @ map fst items)))"
| "CommitNewItems_types 0 X context depth items types rest completed_types s newItems = None"
| "CommitNewItems_types (Suc fuel) X context depth items types [] completed_types s newItems =
     (if length types \<noteq> length completed_types
      then CommitNewItems_types fuel X context depth items types types completed_types s newItems
      else Some (True, s, newItems))"
| "CommitNewItems_types (Suc fuel) X context depth items types (type # rest) completed_types s newItems =
     (if type \<in> set completed_types \<or> unresolved_dep X types completed_types type
      then CommitNewItems_types fuel X context depth items types rest completed_types s newItems
      else
        (case load_phase X depth type items s of
           (True, s1) \<Rightarrow> Some (False, s1, newItems)
         | (False, s1) \<Rightarrow>
             (case children_phase X type items s1 of
                (True, s2) \<Rightarrow> Some (False, s2, newItems)
              | (False, s2) \<Rightarrow>
                  (case CommitNewItems fuel X context (Suc depth) s2 newItems of
                     None \<Rightarrow> None
                   | Some (False, s3, newItems3) \<Rightarrow> Some (False, s3, newItems3)
                   | Some (True, s3, newItems3) \<Rightarrow>
                       CommitNewItems_types fuel X context depth items types rest
                         (std_set_insert type completed_types) s3 newItems3))))"

subsection \<open>CommitItems, ActivateItems, RunWithActivationContext\<close>

text \<open>\<^verbatim>\<open>ApplyRule::CheckMatches\<close> and the statistics only write to the log.\<close>

definition CommitItems ::
  "nat \<Rightarrow> Externals \<Rightarrow> ContextPtr \<Rightarrow> State \<Rightarrow> ItemPtr list \<Rightarrow> bool \<Rightarrow> (bool \<times> State \<times> ItemPtr list) option" where
  "CommitItems fuel X context s newItems silent =
     (case CommitNewItems fuel X context 0 s newItems of
        None \<Rightarrow> None
      | Some (False, s1, newItems1) \<Rightarrow>
          Some (False, in_world (\<lambda>w. foldl (\<lambda>w item. Unregister item w) w newItems1) s1, newItems1)
      | Some (True, s1, newItems1) \<Rightarrow> Some (True, s1, newItems1))"

definition attached_objects :: "World \<Rightarrow> ItemPtr list \<Rightarrow> ObjPtr list" where
  "attached_objects w newItems = List.map_filter (\<lambda>item. m_Object (item_heap w item)) newItems"

definition ActivateItems ::
  "Externals \<Rightarrow> State \<Rightarrow> ItemPtr list \<Rightarrow> bool \<Rightarrow> bool \<Rightarrow> bool \<Rightarrow> bool \<times> State" where
  "ActivateItems X s newItems runtimeCreated silent withModAttrs =
     (let s0 = (if withModAttrs then in_world (ModAttrs X) s else s)
      in case Join (foldl (\<lambda>s obj. Enqueue (hook_step (EvPreActivate obj) (PreActivate X obj)) s) s0
                      (filter (\<lambda>obj. \<not> Active (object_heap (world s0) obj))
                         (attached_objects (world s0) newItems))) of
           (True, s1) \<Rightarrow> (False, s1)
         | (False, s1) \<Rightarrow>
             (case Join (foldl (\<lambda>s obj. Enqueue (hook_step (EvActivate obj runtimeCreated)
                                                  (Activate X obj runtimeCreated)) s) s1
                           (attached_objects (world s1) newItems)) of
                (True, s2) \<Rightarrow> (False, s2)
              | (False, s2) \<Rightarrow> (True, s2)))"

text \<open>
  Modelled from the spec: \<^verbatim>\<open>ConfigItemBuilder::Compile\<close>, which is not in this file.
  The lambda of \<^verbatim>\<open>ReloadObject\<close> (lines 860 to 889) compiles an item of the type and
  name of the object, whose expressions import the default templates, copy the
  config fields of the object and call the callback, and registers it.
\<close>

definition updateObjectFunc :: "Externals \<Rightarrow> ObjPtr \<Rightarrow> Function \<Rightarrow> World \<Rightarrow> error option \<times> World" where
  "updateObjectFunc X object callback w =
     (case new_ConfigItem
             (ConfigItem_new (ReflectionType (object_heap w object)) (Name (object_heap w object))
                False
                (Some (DictExpression
                   [ImportDefaultTemplatesExpression, MigrateCall object, UpdateCall callback]))
                None False False (DebugInfo_at [] 0) None [] [] ''object'') w of
        (newItem, w') \<Rightarrow> Register X newItem w')"

definition Function_Invoke :: "Externals \<Rightarrow> Function \<Rightarrow> ScriptValue list \<Rightarrow> World \<Rightarrow> error option \<times> World" where
  "Function_Invoke X function args w =
     (case function of
        ScriptFunction f \<Rightarrow> Invoke X f None args w
      | UpdateObjectFunc \<Rightarrow>
          (case args of
             [ObjectValue object, FunctionValue callback] \<Rightarrow> updateObjectFunc X object callback w
           | _ \<Rightarrow> (Some (ScriptError [Text ''Invalid arguments for function.''] None), w)))"

text \<open>
  The first argument is converted to a function: the empty value gives the null
  pointer, a value that is not a function makes the conversion throw. The work
  queue is new; \<^verbatim>\<open>withModAttrs\<close> is left at its default, false.
\<close>

definition RunWithActivationContext ::
  "nat \<Rightarrow> Externals \<Rightarrow> ScriptValue list \<Rightarrow> State \<Rightarrow> ((error + bool) \<times> State) option" where
  "RunWithActivationContext fuel X args s0 =
     (case ActivationScope_enter None (world s0) of
        (context, w) \<Rightarrow>
          (let s = s0\<lparr>world := w\<rparr>
           in case args of
                [] \<Rightarrow> Some (Inl (ScriptError [Quoted ''function'', Text '' argument must be specified.''] None),
                            in_world ActivationScope_leave s)
              | Empty # uargs \<Rightarrow>
                  Some (Inl (ScriptError [Quoted ''function'', Text '' argument must not be null.''] None),
                        in_world ActivationScope_leave s)
              | ObjectValue v # uargs \<Rightarrow>
                  Some (Inl (OtherException ''bad_cast''), in_world ActivationScope_leave s)
              | FunctionValue function # uargs \<Rightarrow>
                  (case call_hook (Function_Invoke X function uargs) s of
                     (Some ex, s1) \<Rightarrow> Some (Inl ex, in_world ActivationScope_leave s1)
                   | (None, s1) \<Rightarrow>
                       (case CommitItems fuel X (Some context) (s1\<lparr>upq := []\<rparr>) [] True of
                          None \<Rightarrow> None
                        | Some (False, s2, newItems) \<Rightarrow> Some (Inr False, in_world ActivationScope_leave s2)
                        | Some (True, s2, newItems) \<Rightarrow>
                            (case ActivateItems X s2 newItems False True False of
                               (False, s3) \<Rightarrow> Some (Inr False, in_world ActivationScope_leave s3)
                             | (True, s3) \<Rightarrow> Some (Inr True, in_world ActivationScope_leave s3))))))"

subsection \<open>ReloadObject\<close>

type_synonym DeletedObjectInfo = "ObjPtr \<times> ItemPtr option"

definition SetExtension :: "ObjPtr \<Rightarrow> string \<Rightarrow> bool \<Rightarrow> World \<Rightarrow> World" where
  "SetExtension obj key v w =
     set_object obj (\<lambda>obj. obj\<lparr>Extensions := (Extensions obj)(key := Some v)\<rparr>) w"

text \<open>Lines 778 to 791: what \<^verbatim>\<open>DeleteObjectHelper\<close> does once the parents are deleted.\<close>

definition DeleteObject_deactivate :: "Externals \<Rightarrow> ObjPtr \<Rightarrow> ItemPtr option \<Rightarrow> State \<Rightarrow> error option \<times> State" where
  "DeleteObject_deactivate X object item s =
     run_steps
       [pure_step (EvSetExtension object ''ConfigObjectDeleted'' True)
          (SetExtension object ''ConfigObjectDeleted'' True),
        hook_step (EvDeactivate object True) (Deactivate X object True),
        (\<lambda>s. (None, in_world (case item of
                               Some i \<Rightarrow> Unregister i
                             | None \<Rightarrow> ConfigObject_Unregister object) s))] s"

text \<open>
  The walk over the parents does not end when the dependency graph has a cycle,
  so \<^verbatim>\<open>DeleteObjectHelper\<close> has fuel too.
\<close>

fun DeleteObjectHelper ::
  "nat \<Rightarrow> Externals \<Rightarrow> ObjPtr \<Rightarrow> DeletedObjectInfo list \<Rightarrow> State \<Rightarrow>
   (error option \<times> DeletedObjectInfo list \<times> State) option"
and DeleteObjectHelper_parents ::
  "nat \<Rightarrow> Externals \<Rightarrow> ObjPtr option list \<Rightarrow> DeletedObjectInfo list \<Rightarrow> State \<Rightarrow>
   (error option \<times> DeletedObjectInfo list \<times> State) option" where
  "DeleteObjectHelper 0 X object deletedObjects s = None"
| "DeleteObjectHelper (Suc fuel) X object deletedObjects s =
     (let item = GetByTypeAndName (ReflectionType (object_heap (world s) object))
                   (Name (object_heap (world s) object)) (world s)
      in case DeleteObjectHelper_parents fuel X (GetParents X object (world s))
                (deletedObjects @ [(object, item)]) s of
           None \<Rightarrow> None
         | Some (Some ex, deletedObjects1, s1) \<Rightarrow> Some (Some ex, deletedObjects1, s1)
         | Some (None, deletedObjects1, s1) \<Rightarrow>
             (case DeleteObject_deactivate X object item s1 of
                (r, s2) \<Rightarrow> Some (r, deletedObjects1, s2)))"
| "DeleteObjectHelper_parents 0 X parents deletedObjects s = None"
| "DeleteObjectHelper_parents (Suc fuel) X [] deletedObjects s = Some (None, deletedObjects, s)"
| "DeleteObjectHelper_parents (Suc fuel) X (pobj # parents) deletedObjects s =
     (case pobj of
        None \<Rightarrow> DeleteObjectHelper_parents fuel X parents deletedObjects s
      | Some parentObj \<Rightarrow>
          (case DeleteObjectHelper fuel X parentObj deletedObjects s of
             None \<Rightarrow> None
           | Some (Some ex, deletedObjects1, s1) \<Rightarrow> Some (Some ex, deletedObjects1, s1)
           | Some (None, deletedObjects1, s1) \<Rightarrow>
               DeleteObjectHelper_parents fuel X parents deletedObjects1 s1))"

text \<open>Lines 815 to 827: the deleted object is put back.\<close>

definition recover_steps :: "Externals \<Rightarrow> DeletedObjectInfo \<Rightarrow> (State \<Rightarrow> error option \<times> State) list" where
  "recover_steps X doi =
     [pure_step (EvSetExtension (fst doi) ''ConfigObjectDeleted'' False)
        (SetExtension (fst doi) ''ConfigObjectDeleted'' False)]
     @ (case snd doi of
          None \<Rightarrow> []
        | Some item \<Rightarrow> [hook_step (EvRegisterItem item) (Register X item)])
     @ [hook_step (EvOnConfigLoaded (fst doi)) (OnConfigLoaded X (fst doi)),
        pure_step (EvRegisterObject (fst doi)) (ConfigObject_Register (fst doi)),
        hook_step (EvOnAllConfigLoaded (fst doi)) (OnAllConfigLoaded X (fst doi)),
        hook_step (EvPreActivate (fst doi)) (PreActivate X (fst doi)),
        hook_step (EvActivate (fst doi) True) (Activate X (fst doi) True)]"

text \<open>Lines 799 to 828: the body of the loop of \<^verbatim>\<open>RestoreObjectsHelper\<close>.\<close>

definition RestoreObject :: "Externals \<Rightarrow> bool \<Rightarrow> DeletedObjectInfo \<Rightarrow> State \<Rightarrow> error option \<times> State" where
  "RestoreObject X recoverApply doi s =
     (let deletedObject = object_heap (world s) (fst doi)
      in case GetObject (ReflectionType deletedObject) (Name deletedObject) (world s) of
           Some newObject \<Rightarrow>
             pure_step (EvRestoreState newObject (fst doi)) (RestoreState X newObject (fst doi)) s
         | None \<Rightarrow>
             if recoverApply \<or> CreationType deletedObject = ''object''
             then run_steps (recover_steps X doi) s
             else (None, s))"

definition RestoreObjectsHelper :: "Externals \<Rightarrow> DeletedObjectInfo list \<Rightarrow> bool \<Rightarrow> State \<Rightarrow> error option \<times> State" where
  "RestoreObjectsHelper X deletedObjects recoverApply s =
     (case run_steps (map (RestoreObject X recoverApply) deletedObjects)
             (in_world (\<lambda>w. snd (ActivationScope_enter None w)) s) of
        (r, s') \<Rightarrow> (r, in_world ActivationScope_leave s'))"

text \<open>
  The calls that put a deleted object back, in order. \<open>reinserted\<close>: the body of
  the loop ran on the entry without an exception and, when no object was
  registered under the type and name of the deleted object, it made exactly
  these calls. \<open>restore_walk\<close>: the states between the entries of the list, each
  entry being handled from one state to the next.
\<close>

definition recover_events :: "DeletedObjectInfo \<Rightarrow> event list" where
  "recover_events doi =
     [EvSetExtension (fst doi) ''ConfigObjectDeleted'' False]
     @ (case snd doi of None \<Rightarrow> [] | Some item \<Rightarrow> [EvRegisterItem item])
     @ [EvOnConfigLoaded (fst doi), EvRegisterObject (fst doi), EvOnAllConfigLoaded (fst doi),
        EvPreActivate (fst doi), EvActivate (fst doi) True]"

definition reinserted :: "Externals \<Rightarrow> DeletedObjectInfo \<Rightarrow> State \<Rightarrow> State \<Rightarrow> bool" where
  "reinserted X doi s s' =
     (RestoreObject X True doi s = (None, s')
      \<and> (GetObject (ReflectionType (object_heap (world s) (fst doi)))
            (Name (object_heap (world s) (fst doi))) (world s) = None \<longrightarrow>
          trace s' = trace s @ recover_events doi))"

fun restore_walk :: "Externals \<Rightarrow> DeletedObjectInfo list \<Rightarrow> State list \<Rightarrow> bool" where
  "restore_walk X [] ss = (length ss = 1)"
| "restore_walk X (doi # deletedObjects) (s # s' # ss) =
     (reinserted X doi s s' \<and> restore_walk X deletedObjects (s' # ss))"
| "restore_walk X (doi # deletedObjects) ss = False"

text \<open>Lines 859 to 904: the block inside \<^verbatim>\<open>try\<close>.\<close>

definition ReloadObject_rebuild ::
  "nat \<Rightarrow> Externals \<Rightarrow> ObjPtr \<Rightarrow> bool \<Rightarrow> Function \<Rightarrow> State \<Rightarrow> (error option \<times> State) option" where
  "ReloadObject_rebuild fuel X object destroyFirst callback s =
     (case RunWithActivationContext fuel X
             (if \<not> destroyFirst
              then [FunctionValue UpdateObjectFunc, ObjectValue object, FunctionValue callback]
              else [FunctionValue callback]) s of
        None \<Rightarrow> None
      | Some (Inl ex, s1) \<Rightarrow> Some (Some ex, s1)
      | Some (Inr b, s1) \<Rightarrow>
          if GetObject (ReflectionType (object_heap (world s1) object))
               (Name (object_heap (world s1) object)) (world s1) = None
          then Some (Some (ScriptError [Text ''Callback failed to re-create the object.''] None), s1)
          else Some (None, s1))"

definition ReloadObject ::
  "nat \<Rightarrow> Externals \<Rightarrow> ObjPtr option \<Rightarrow> bool \<Rightarrow> Function option \<Rightarrow> State \<Rightarrow> (error option \<times> State) option" where
  "ReloadObject fuel X object destroyFirst callback s =
     (case object of
        None \<Rightarrow> Some (Some (ScriptError [Quoted ''object'', Text '' argument must not be null.''] None), s)
      | Some obj \<Rightarrow>
     (case callback of
        None \<Rightarrow> Some (Some (ScriptError [Quoted ''callback'', Text '' argument must not be null.''] None), s)
      | Some cb \<Rightarrow>
     (case DeleteObjectHelper fuel X obj [] s of
        None \<Rightarrow> None
      | Some (Some ex, deletedObjects, s1) \<Rightarrow> Some (Some ex, s1)
      | Some (None, deletedObjects, s1) \<Rightarrow>
     (case ReloadObject_rebuild fuel X obj destroyFirst cb s1 of
        None \<Rightarrow> None
      | Some (Some ex, s2) \<Rightarrow>
          (case RestoreObjectsHelper X deletedObjects True s2 of
             (Some ex', s3) \<Rightarrow> Some (Some ex', s3)
           | (None, s3) \<Rightarrow> Some (Some ex, s3))
      | Some (None, s2) \<Rightarrow> Some (RestoreObjectsHelper X deletedObjects False s2)))))"

subsection \<open>Example inputs\<close>

text \<open>
  Two types: \<open>Host\<close> at address 0, without a name composer, and \<open>Service\<close> at
  address 1, which depends on \<open>Host\<close> and composes \<open>host!name\<close> from field 0 of
  the object. \<^verbatim>\<open>GetShortName\<close> returns the attribute as it is. The expression 1
  sets field 0 to \<open>a\<close>; the hooks do nothing.
\<close>

definition ex_X :: Externals where
  "ex_X =
     \<lparr>GetAllTypes = [0, 1],
      GetByName = (\<lambda>n. if n = ''Host'' then Some 0 else if n = ''Service'' then Some 1 else None),
      GetName = (\<lambda>t. if t = 0 then ''Host'' else ''Service''),
      IsAssignableFrom = (\<lambda>t. True),
      GetLoadDependencies = (\<lambda>t. if t = 1 then [''Host''] else []),
      MakeName = (\<lambda>t. if t = 1 then Some (\<lambda>shortName obj. Fields obj 0 @ ''!'' @ shortName) else None),
      Instantiate = (\<lambda>t. ConfigObject_blank (Some t)),
      GetShortName = ShortName,
      GetFieldCount = (\<lambda>t. 1),
      IsConfigField = (\<lambda>t i. True),
      GetField = (\<lambda>obj i. Fields obj i),
      SetField = (\<lambda>i v obj. obj\<lparr>Fields := (Fields obj)(i := v)\<rparr>),
      Evaluate = (\<lambda>e scope obj w.
         if e = 1 then (Inr [], set_object obj (\<lambda>obj. obj\<lparr>Fields := (Fields obj)(0 := ''a'')\<rparr>) w)
         else (Inr [], w)),
      ImportDefaultTemplates = (\<lambda>obj w. (Inr [], w)),
      Invoke = (\<lambda>f self args w. (None, w)),
      Validate = (\<lambda>utils obj w. (None, w)),
      Serialize = (\<lambda>obj w. []),
      OnConfigLoaded = (\<lambda>obj w. (None, w)),
      OnAllConfigLoaded = (\<lambda>obj w. (None, w)),
      CreateChildObjects = (\<lambda>obj t w. (None, w)),
      PreActivate = (\<lambda>obj w. (None, w)),
      Activate = (\<lambda>obj rc w. (None, w)),
      Deactivate = (\<lambda>obj e w. (None, w)),
      GetParents = (\<lambda>obj w. []),
      RestoreState = (\<lambda>new old w. w),
      ModAttrs = (\<lambda>w. w)\<rparr>"

text \<open>A template \<open>base\<close> of type \<open>Host\<close>, declared twice, in two files.\<close>

definition ex_template :: "string \<Rightarrow> ConfigItem" where
  "ex_template path =
     ConfigItem_new (Some 0) ''base'' True (Some (Compiled 0)) None False False
       (DebugInfo_at path 1) None [] [] ''template''"

definition ex_two_templates :: World where
  "ex_two_templates =
     snd (Register ex_X 0
       (snd (new_ConfigItem (ex_template ''b.conf'')
          (snd (new_ConfigItem (ex_template ''a.conf'')
             (World_init\<lparr>activation_stack := [0], next_context := 1\<rparr>))))))"

text \<open>A host \<open>a\<close> and a service \<open>ping\<close>, each registered in the activation context 0.\<close>

definition ex_scope :: World where
  "ex_scope = World_init\<lparr>activation_stack := [0], next_context := 1\<rparr>"

definition ex_host_item :: ConfigItem where
  "ex_host_item =
     ConfigItem_new (Some 0) ''a'' False (Some (Compiled 0)) None False False
       (DebugInfo_at ''hosts.conf'' 1) None [] [] ''object''"

definition ex_service_item :: ConfigItem where
  "ex_service_item =
     ConfigItem_new (Some 1) ''ping'' False (Some (Compiled 1)) None False False
       (DebugInfo_at ''services.conf'' 1) None [] [] ''object''"

definition ex_host_world :: World where
  "ex_host_world = snd (Register ex_X 0 (snd (new_ConfigItem ex_host_item ex_scope)))"

definition ex_service_world :: World where
  "ex_service_world = snd (Register ex_X 0 (snd (new_ConfigItem ex_service_item ex_scope)))"

text \<open>
  The same externals with the other getter: \<^verbatim>\<open>GetShortName\<close> returns the name of
  the object when the attribute is empty. The expression 2 sets field 0 to \<open>a\<close>
  and the name of the object to the empty string.
\<close>

definition ex_X_fallback :: Externals where
  "ex_X_fallback =
     ex_X\<lparr>GetShortName := (\<lambda>obj. if ShortName obj = [] then Name obj else ShortName obj),
          Evaluate := (\<lambda>e scope obj w.
            if e = 1 then (Inr [], set_object obj (\<lambda>obj. obj\<lparr>Fields := (Fields obj)(0 := ''a'')\<rparr>) w)
            else if e = 2
            then (Inr [], set_object obj (\<lambda>obj. obj\<lparr>Fields := (Fields obj)(0 := ''a''), Name := []\<rparr>) w)
            else (Inr [], w))\<rparr>"

text \<open>A service \<open>ping\<close> with the expression 2, and a service without a name.\<close>

definition ex_service_cleared :: World where
  "ex_service_cleared =
     snd (Register ex_X_fallback 0
       (snd (new_ConfigItem (ex_service_item\<lparr>m_Expression := Some (Compiled 2)\<rparr>) ex_scope)))"

definition ex_service_nameless :: World where
  "ex_service_nameless =
     snd (Register ex_X 0 (snd (new_ConfigItem (ex_service_item\<lparr>m_Name := []\<rparr>) ex_scope)))"

text \<open>The host after its \<^verbatim>\<open>Commit\<close>.\<close>

definition ex_committed :: State where
  "ex_committed = snd (Commit ex_X 0 False (State_init ex_host_world))"

text \<open>
  Two hosts \<open>a\<close> and \<open>b\<close> in the activation context 0, and hooks as before but
  for \<^verbatim>\<open>OnConfigLoaded\<close>, which throws for object 1.
\<close>

definition ex_host_b :: ConfigItem where
  "ex_host_b =
     ConfigItem_new (Some 0) ''b'' False (Some (Compiled 0)) None False False
       (DebugInfo_at ''hosts.conf'' 5) None [] [] ''object''"

definition ex_two_hosts :: World where
  "ex_two_hosts = snd (Register ex_X 1 (snd (new_ConfigItem ex_host_b ex_host_world)))"

definition ex_X_failing :: Externals where
  "ex_X_failing =
     ex_X\<lparr>OnConfigLoaded := (\<lambda>obj w. if obj = 1 then (Some (OtherException ''boom''), w) else (None, w))\<rparr>"

text \<open>
  Four types without name composers: \<open>P\<close> at address 0, \<open>S\<close> at 1, which depends on
  \<open>P\<close>, \<open>B\<close> at 2, and \<open>A\<close> at 3, which depends on \<open>B\<close> and \<open>S\<close>.
  \<^verbatim>\<open>CreateChildObjects\<close> makes a child of the type it is asked for: an object of
  type \<open>P\<close> registers an item \<open>s1\<close> of type \<open>S\<close>, an object of type \<open>S\<close> registers
  an item \<open>a1\<close> of type \<open>A\<close>. The configuration has an item \<open>p0\<close> of type \<open>P\<close> and
  an item \<open>b0\<close> of type \<open>B\<close>.
\<close>

definition ex_child :: "nat \<Rightarrow> string \<Rightarrow> ConfigItem" where
  "ex_child t name =
     ConfigItem_new (Some t) name False (Some (Compiled 0)) None False False
       (DebugInfo_at ''apply.conf'' 1) None [] [] ''apply''"

definition ex_types4 :: Externals where
  "ex_types4 =
     ex_X\<lparr>GetAllTypes := [0, 1, 2, 3],
          GetByName := (\<lambda>n. if n = ''P'' then Some 0 else if n = ''S'' then Some 1
                            else if n = ''B'' then Some 2 else if n = ''A'' then Some 3 else None),
          GetName := (\<lambda>t. if t = 0 then ''P'' else if t = 1 then ''S'' else if t = 2 then ''B'' else ''A''),
          GetLoadDependencies := (\<lambda>t. if t = 1 then [''P''] else if t = 3 then [''B'', ''S''] else []),
          MakeName := (\<lambda>t. None)\<rparr>"

definition ex_X4 :: Externals where
  "ex_X4 =
     ex_types4\<lparr>CreateChildObjects := (\<lambda>obj t w.
        if ReflectionType (object_heap w obj) = Some 0 \<and> t = Some 1
        then (case new_ConfigItem (ex_child 1 ''s1'') w of (item, w') \<Rightarrow> Register ex_types4 item w')
        else if ReflectionType (object_heap w obj) = Some 1 \<and> t = Some 3
        then (case new_ConfigItem (ex_child 3 ''a1'') w of (item, w') \<Rightarrow> Register ex_types4 item w')
        else (None, w))\<rparr>"

definition ex_four :: World where
  "ex_four =
     snd (Register ex_types4 1 (snd (new_ConfigItem (ex_child 2 ''b0'')
       (snd (Register ex_types4 0 (snd (new_ConfigItem (ex_child 0 ''p0'') ex_scope)))))))"

text \<open>The host \<open>a\<close> and the service \<open>ping\<close> together.\<close>

definition ex_host_service :: World where
  "ex_host_service = snd (Register ex_X 1 (snd (new_ConfigItem ex_service_item ex_host_world)))"

text \<open>
  Two callbacks for \<^verbatim>\<open>ReloadObject\<close>: script function 7 registers an item for a
  host \<open>a\<close> and then throws, script function 8 throws at once.
\<close>

definition ex_X_reload :: Externals where
  "ex_X_reload =
     ex_X\<lparr>Invoke := (\<lambda>f self args w.
        if f = 7
        then (case new_ConfigItem ex_host_item w of
                (item, w') \<Rightarrow>
                  (case Register ex_X item w' of
                     (Some ex, w'') \<Rightarrow> (Some ex, w'')
                   | (None, w'') \<Rightarrow> (Some (OtherException ''boom''), w'')))
        else if f = 8 then (Some (OtherException ''boom''), w)
        else (None, w))\<rparr>"

text \<open>
  The states of the two reloads of the examples: the live host \<open>a\<close> after the
  deletion and after the rebuild with callback 7; a live service \<open>ping\<close> made by
  an apply rule, after the deletion and after the rebuild with callback 8.
\<close>

definition ex_reload_deleted :: State where
  "ex_reload_deleted = snd (snd (the (DeleteObjectHelper 5 ex_X_reload 0 [] ex_committed)))"

definition ex_rebuild_failed :: State where
  "ex_rebuild_failed =
     snd (the (ReloadObject_rebuild 5 ex_X_reload 0 True (ScriptFunction 7) ex_reload_deleted))"

definition ex_apply_service :: ConfigItem where
  "ex_apply_service =
     ConfigItem_new (Some 1) ''ping'' False (Some (Compiled 1)) None False False
       (DebugInfo_at ''apply.conf'' 1) None [] [] ''apply''"

definition ex_service_live :: State where
  "ex_service_live =
     snd (Commit ex_X 0 True
       (State_init (snd (Register ex_X 0 (snd (new_ConfigItem ex_apply_service ex_scope))))))"

definition ex_service_deleted :: State where
  "ex_service_deleted = snd (snd (the (DeleteObjectHelper 5 ex_X_reload 0 [] ex_service_live)))"

definition ex_service_failed :: State where
  "ex_service_failed =
     snd (the (ReloadObject_rebuild 5 ex_X_reload 0 True (ScriptFunction 8) ex_service_deleted))"

text \<open>
  The two hosts \<open>a\<close> and \<open>b\<close> live: their items are registered in the activation
  context 0 and hold the objects 0 and 1, which are registered with their
  type; \<open>b\<close> is what \<^verbatim>\<open>GetParents\<close> gives for \<open>a\<close>. Then the states of the reload of
  \<open>a\<close> with callback 7: after the deletion, after the rebuild, and after the
  first step of the walk that restores.
\<close>

definition ex_X_parents :: Externals where
  "ex_X_parents = ex_X_reload\<lparr>GetParents := (\<lambda>obj w. if obj = 0 then [Some 1] else [])\<rparr>"

definition ex_two_live :: State where
  "ex_two_live =
     \<lparr>world = ex_scope\<lparr>
        m_Items := [(Some 0, [(''a'', 0), (''b'', 1)])],
        item_heap := (\<lambda>i. if i = 0 then ex_host_item\<lparr>m_ActivationContext := Some 0, m_Object := Some 0\<rparr>
                           else ex_host_b\<lparr>m_ActivationContext := Some 0, m_Object := Some 1\<rparr>),
        next_item := 2,
        object_heap := (\<lambda>p. (ConfigObject_blank (Some 0))\<lparr>Name := (if p = 0 then ''a'' else ''b''),
                                  CreationType := ''object''\<rparr>),
        next_object := 2,
        object_registry := (\<lambda>k. if k = (Some 0, ''a'') then Some 0
                                   else if k = (Some 0, ''b'') then Some 1 else None)\<rparr>,
      upq = [], trace = []\<rparr>"

definition ex_two_deleted :: State where
  "ex_two_deleted = snd (snd (the (DeleteObjectHelper 5 ex_X_parents 0 [] ex_two_live)))"

definition ex_two_failed :: State where
  "ex_two_failed =
     snd (the (ReloadObject_rebuild 5 ex_X_parents 0 True (ScriptFunction 7) ex_two_deleted))"

definition ex_two_stopped :: State where
  "ex_two_stopped =
     snd (RestoreObject ex_X_parents True (0, Some 0)
            (in_world (\<lambda>w. snd (ActivationScope_enter None w)) ex_two_failed))"

text \<open>
  A host \<open>bad\<close> in the activation context 0, declared in \<open>/p/bad.conf\<close>, that is
  to be ignored on error and whose expression 9 throws. \<open>ex_bad_pending s\<close>: the
  item is all that is registered, it has no object, and the work queue holds
  no exception.
\<close>

definition ex_X_throwing :: Externals where
  "ex_X_throwing =
     ex_X\<lparr>Evaluate := (\<lambda>e scope obj w.
        if e = 9 then (Inl (ScriptError [Text ''boom''] None), w) else (Inr [], w))\<rparr>"

definition ex_bad_item :: ConfigItem where
  "ex_bad_item =
     ConfigItem_new (Some 0) ''bad'' False (Some (Compiled 9)) None False True
       (DebugInfo_at ''/p/bad.conf'' 1) None [] [] ''object''"

definition ex_bad_world :: World where
  "ex_bad_world = snd (Register ex_X 0 (snd (new_ConfigItem ex_bad_item ex_scope)))"

definition ex_bad_pending :: "State \<Rightarrow> bool" where
  "ex_bad_pending s =
     (m_Items (world s) = [(Some 0, [(''bad'', 0)])] \<and> m_UnnamedItems (world s) = []
      \<and> item_heap (world s) 0 = ex_bad_item\<lparr>m_ActivationContext := Some 0\<rparr>
      \<and> upq s = [])"

text \<open>Two paths recorded as ignored.\<close>

definition ex_ignored :: State where
  "ex_ignored = State_init (World_init\<lparr>m_IgnoredItems := [''/a/p/x'', ''/q/y'']\<rparr>)"

section \<open>Properties\<close>

subsection \<open>Ordered maps\<close>

lemma map_of_std_map_set: "map_of (std_map_set lt k v m) = (map_of m)(k \<mapsto> v)"
  by (induction m) (auto simp: fun_eq_iff)

lemma map_of_std_map_erase: "map_of (std_map_erase k m) = (map_of m)(k := None)"
  unfolding std_map_erase_def by (induction m) (auto simp: fun_eq_iff)

lemma map_of_std_map_index:
  "map_of (std_map_index lt k d m) k = Some (case map_of m k of None \<Rightarrow> d | Some v \<Rightarrow> v)"
  by (simp add: std_map_index_def map_of_std_map_set split: option.splits)

lemma find_in_index:
  "map_of (the (map_of (std_map_index lt t [] m) t)) name = find_in m t name"
  by (simp add: map_of_std_map_index find_in_def split: option.splits)

lemma find_in_index_same:
  "find_in m t name = Some i \<Longrightarrow> std_map_index lt t [] m = m"
  by (auto simp: find_in_def std_map_index_def split: option.splits)

subsection \<open>The example inputs\<close>

lemma ex_two_templates_items: "m_Items ex_two_templates = [(Some 0, [(''base'', 0)])]"
  by (simp add: ex_two_templates_def Register_def new_ConfigItem_def World_init_def set_item_def
     ex_template_def ConfigItem_new_def NameComposer_def ex_X_def std_map_index_def Let_def)

lemma ex_two_templates_heap:
  "item_heap ex_two_templates 0 = (ex_template ''a.conf'')\<lparr>m_ActivationContext := Some 0\<rparr>"
  "item_heap ex_two_templates (Suc 0) = ex_template ''b.conf''"
  by (simp_all add: ex_two_templates_def Register_def new_ConfigItem_def World_init_def set_item_def
     ex_template_def ConfigItem_new_def NameComposer_def ex_X_def std_map_index_def Let_def
     GetCurrentContext_def)

lemma ex_two_templates_Register:
  "fst (Register ex_X (Suc 0) ex_two_templates) =
     Some (DuplicateDefinition ''Host'' ''base'' (DebugInfo_at ''a.conf'' 1) (DebugInfo_at ''b.conf'' 1))"
  by (simp add: Register_def Let_def ex_two_templates_items ex_two_templates_heap set_item_def
      ex_template_def ConfigItem_new_def NameComposer_def ex_X_def std_map_index_def Type_GetName_def)

subsection \<open>RemoveIgnoredItems\<close>

lemma Find_from_None: "Find_from pos s str = None \<longleftrightarrow> \<not> sublist str s"
proof (induction s arbitrary: pos)
  case Nil
  then show ?case by simp
next
  case (Cons c cs)
  show ?case
  proof (cases "prefix str (c # cs)")
    case True
    then show ?thesis by (simp add: prefix_imp_sublist)
  next
    case False
    then show ?thesis using Cons.IH by (simp add: sublist_Cons_right)
  qed
qed

lemma RemoveIgnoredItems_loop_filter:
  "RemoveIgnoredItems_loop p paths tr = tr @ map EvUnlink (filter (sublist p) paths)"
  by (induction paths arbitrary: tr) (simp_all add: Find_def Find_from_None)

text \<open>
  C1, as the claim states it, fails: with the paths \<open>/a/p/x\<close> and \<open>/q/y\<close> recorded,
  \<open>RemoveIgnoredItems ''/p''\<close> unlinks \<open>/a/p/x\<close>, which does not start with \<open>/p\<close>, and
  \<open>/q/y\<close>, which does not start with \<open>/p\<close> either, is no longer recorded afterwards.
\<close>

theorem RemoveIgnoredItems_prefix_counterexample:
  "trace (RemoveIgnoredItems ''/p'' ex_ignored) = [EvUnlink ''/a/p/x'']
   \<and> \<not> prefix ''/p'' ''/a/p/x''
   \<and> m_IgnoredItems (world ex_ignored) = [''/a/p/x'', ''/q/y'']
   \<and> \<not> prefix ''/p'' ''/q/y''
   \<and> m_IgnoredItems (world (RemoveIgnoredItems ''/p'' ex_ignored)) = []"
  by (simp add: RemoveIgnoredItems_def ex_ignored_def State_init_def World_init_def Find_def)

text \<open>
  C1, amended: \<open>RemoveIgnoredItems\<close> unlinks, in the order of the list, exactly the
  recorded paths in which its argument occurs somewhere, and then the list of
  ignored items is empty; nothing else of the state changes.
\<close>

theorem RemoveIgnoredItems_unlinks_containing:
  "trace (RemoveIgnoredItems allowedConfigPath s) =
     trace s @ map EvUnlink (filter (sublist allowedConfigPath) (m_IgnoredItems (world s)))
   \<and> world (RemoveIgnoredItems allowedConfigPath s) = (world s)\<lparr>m_IgnoredItems := []\<rparr>
   \<and> upq (RemoveIgnoredItems allowedConfigPath s) = upq s"
  by (simp add: RemoveIgnoredItems_def RemoveIgnoredItems_loop_filter)

theorem RemoveIgnoredItems_unlinks_containing_witness:
  "trace (RemoveIgnoredItems ''/q'' ex_ignored) = [EvUnlink ''/q/y'']
   \<and> m_IgnoredItems (world (RemoveIgnoredItems ''/q'' ex_ignored)) = []"
  using RemoveIgnoredItems_unlinks_containing [of "''/q''" ex_ignored]
  by (simp add: ex_ignored_def State_init_def World_init_def sublist_code)

subsection \<open>Register\<close>

text \<open>
  C5, as the claim states it, fails: a template \<open>base\<close> of type \<open>Host\<close> is
  registered and is the only item; registering a second template \<open>base\<close> of
  type \<open>Host\<close> throws, although no item that is not abstract is registered.
\<close>

theorem Register_duplicate_template_counterexample:
  "fst (Register ex_X 1 ex_two_templates) =
     Some (DuplicateDefinition ''Host'' ''base'' (DebugInfo_at ''a.conf'' 1) (DebugInfo_at ''b.conf'' 1))
   \<and> m_Items ex_two_templates = [(Some 0, [(''base'', 0)])]
   \<and> m_Abstract (item_heap ex_two_templates 0)"
  by (simp add: Register_def Let_def ex_two_templates_items ex_two_templates_heap set_item_def
      ex_template_def ConfigItem_new_def NameComposer_def ex_X_def std_map_index_def Type_GetName_def)

text \<open>
  C5, amended: for an item with a type, \<open>Register\<close> throws if and only if the item
  is abstract or its type has no name composer, and the named index already has
  an entry, abstract or not, for its type and name. The exception is then the
  duplicate definition error, whose message has the debug information of the
  entry and of the new item. An item that is not abstract and whose type has a
  name composer is appended to the unnamed items, the other indices stay as they
  are and nothing is thrown.
\<close>

theorem Register_throws_iff:
  assumes "m_Type (item_heap w this) = Some t"
  shows "(fst (Register X this w) \<noteq> None \<longleftrightarrow>
            (m_Abstract (item_heap w this) \<or> MakeName X t = None)
            \<and> GetByTypeAndName (Some t) (m_Name (item_heap w this)) w \<noteq> None)
    \<and> (\<forall>existing.
          (m_Abstract (item_heap w this) \<or> MakeName X t = None)
          \<and> GetByTypeAndName (Some t) (m_Name (item_heap w this)) w = Some existing \<longrightarrow>
          fst (Register X this w) =
            Some (DuplicateDefinition (GetName X t) (m_Name (item_heap w this))
                    (m_DebugInfo (item_heap w existing)) (m_DebugInfo (item_heap w this)))
          \<and> (\<exists>fs. fst (Register X this w) = Some (ScriptError fs None)
                \<and> Loc (m_DebugInfo (item_heap w existing)) \<in> set fs
                \<and> Loc (m_DebugInfo (item_heap w this)) \<in> set fs))
    \<and> (\<not> m_Abstract (item_heap w this) \<and> MakeName X t \<noteq> None \<longrightarrow>
          fst (Register X this w) = None
          \<and> m_UnnamedItems (snd (Register X this w)) = m_UnnamedItems w @ [this]
          \<and> m_Items (snd (Register X this w)) = m_Items w
          \<and> m_DefaultTemplates (snd (Register X this w)) = m_DefaultTemplates w)"
  using assms
  by (auto simp: Register_def Let_def set_item_def NameComposer_def Type_GetName_def
      GetByTypeAndName_def find_in_index DuplicateDefinition_def split: option.splits)

theorem Register_throws_iff_witness:
  "m_Type (item_heap ex_two_templates 1) = Some 0
   \<and> GetByTypeAndName (Some 0) ''base'' ex_two_templates = Some 0
   \<and> fst (Register ex_X 1 ex_two_templates) \<noteq> None"
  using Register_throws_iff [of ex_two_templates 1 0 ex_X]
  by (simp add: ex_two_templates_heap ex_two_templates_items ex_template_def ConfigItem_new_def
      GetByTypeAndName_def find_in_def)

text \<open>
  C10: when \<open>Register\<close> throws, the named index, the unnamed items and the default
  templates are what they were, and the entry found for the type and name of the
  item is still the entry for them.
\<close>

theorem Register_atomic:
  assumes "fst (Register X this w) = Some e"
  shows "m_Items (snd (Register X this w)) = m_Items w
       \<and> m_UnnamedItems (snd (Register X this w)) = m_UnnamedItems w
       \<and> m_DefaultTemplates (snd (Register X this w)) = m_DefaultTemplates w
       \<and> (\<exists>existing.
            GetByTypeAndName (m_Type (item_heap w this)) (m_Name (item_heap w this)) w = Some existing
            \<and> GetByTypeAndName (m_Type (item_heap w this)) (m_Name (item_heap w this))
                 (snd (Register X this w)) = Some existing)"
  using assms
  by (auto simp: Register_def Let_def set_item_def GetByTypeAndName_def find_in_index
      find_in_index_same split: option.splits if_splits sum.splits)

theorem Register_atomic_witness:
  "fst (Register ex_X (Suc 0) ex_two_templates) =
     Some (DuplicateDefinition ''Host'' ''base'' (DebugInfo_at ''a.conf'' 1) (DebugInfo_at ''b.conf'' 1))
   \<and> m_Items (snd (Register ex_X (Suc 0) ex_two_templates)) = [(Some 0, [(''base'', 0)])]
   \<and> m_UnnamedItems (snd (Register ex_X (Suc 0) ex_two_templates)) = m_UnnamedItems ex_two_templates"
  using Register_atomic [of ex_X "Suc 0" ex_two_templates, OF ex_two_templates_Register]
  by (simp add: ex_two_templates_Register ex_two_templates_items)

subsection \<open>Commit\<close>

text \<open>
  C8: for an abstract item whose type is not null and is a config object type,
  \<open>Commit\<close> returns null and the state is the state before the call: no object is
  made, nothing is validated, registered or written, no hook is called.
\<close>

theorem Commit_abstract:
  assumes "m_Type (item_heap (world s) this) = Some t" and "IsAssignableFrom X t"
    and "m_Abstract (item_heap (world s) this)"
  shows "Commit X this discard s = (Inr None, s)"
  using assms by (simp add: Commit_def Commit_begin_def)

theorem Commit_abstract_witness:
  "Commit ex_X 0 False (State_init ex_two_templates) = (Inr None, State_init ex_two_templates)"
  using Commit_abstract [of "State_init ex_two_templates" 0 0 ex_X False]
  by (simp add: State_init_def ex_two_templates_heap ex_template_def ConfigItem_new_def ex_X_def)

























text \<open>
  C6, as the claim states it, fails, whichever of the two the getter is. With
  the getter that returns the attribute, the service \<open>ping\<close> is at the name block
  with an empty short name, and \<open>Commit\<close> returns the object, named \<open>a!ping\<close>.
  With the getter that falls back to the name of the object, the attribute is
  empty at the name block for the same service, and the getter itself returns
  the empty string for the service whose expression clears the name; in both
  runs \<open>Commit\<close> returns the object, named \<open>a!ping\<close>. The name of the item was the
  input of the composer each time.
\<close>

theorem Commit_short_name_counterexample:
  "MakeName ex_X 1 \<noteq> None \<and> MakeName ex_X_fallback 1 \<noteq> None
   \<and> m_Type (item_heap ex_service_world 0) = Some 1
   \<and> m_Type (item_heap ex_service_cleared 0) = Some 1
   \<and> GetShortName ex_X (object_heap (world (snd (Commit_evaluate ex_X 0 True 0
        (snd (Commit_begin ex_X 0 (State_init ex_service_world)))))) 0) = []
   \<and> fst (Commit ex_X 0 True (State_init ex_service_world)) = Inr (Some 0)
   \<and> Name (object_heap (world (snd (Commit ex_X 0 True (State_init ex_service_world)))) 0) = ''a!ping''
   \<and> ShortName (object_heap (world (snd (Commit_evaluate ex_X_fallback 0 True 0
        (snd (Commit_begin ex_X_fallback 0 (State_init ex_service_world)))))) 0) = []
   \<and> fst (Commit ex_X_fallback 0 True (State_init ex_service_world)) = Inr (Some 0)
   \<and> Name (object_heap (world (snd (Commit ex_X_fallback 0 True (State_init ex_service_world)))) 0)
       = ''a!ping''
   \<and> GetShortName ex_X_fallback (object_heap (world (snd (Commit_evaluate ex_X_fallback 0 True 0
        (snd (Commit_begin ex_X_fallback 0 (State_init ex_service_cleared)))))) 0) = []
   \<and> fst (Commit ex_X_fallback 0 True (State_init ex_service_cleared)) = Inr (Some 0)
   \<and> Name (object_heap (world (snd (Commit ex_X_fallback 0 True (State_init ex_service_cleared)))) 0)
       = ''a!ping''"
proof -
  have "MakeName ex_X 1 \<noteq> None \<and> MakeName ex_X_fallback 1 \<noteq> None"
    by (simp add: ex_X_def ex_X_fallback_def)
  moreover have "m_Type (item_heap ex_service_world 0) = Some 1
   \<and> m_Type (item_heap ex_service_cleared 0) = Some 1
   \<and> GetShortName ex_X (object_heap (world (snd (Commit_evaluate ex_X 0 True 0
        (snd (Commit_begin ex_X 0 (State_init ex_service_world)))))) 0) = []
   \<and> fst (Commit ex_X 0 True (State_init ex_service_world)) = Inr (Some 0)
   \<and> Name (object_heap (world (snd (Commit ex_X 0 True (State_init ex_service_world)))) 0) = ''a!ping''"
    by code_simp
  moreover have "ShortName (object_heap (world (snd (Commit_evaluate ex_X_fallback 0 True 0
        (snd (Commit_begin ex_X_fallback 0 (State_init ex_service_world)))))) 0) = []
   \<and> fst (Commit ex_X_fallback 0 True (State_init ex_service_world)) = Inr (Some 0)
   \<and> Name (object_heap (world (snd (Commit ex_X_fallback 0 True (State_init ex_service_world)))) 0)
       = ''a!ping''"
    by code_simp
  moreover have "GetShortName ex_X_fallback (object_heap (world (snd (Commit_evaluate ex_X_fallback 0 True 0
        (snd (Commit_begin ex_X_fallback 0 (State_init ex_service_cleared)))))) 0) = []
   \<and> fst (Commit ex_X_fallback 0 True (State_init ex_service_cleared)) = Inr (Some 0)
   \<and> Name (object_heap (world (snd (Commit ex_X_fallback 0 True (State_init ex_service_cleared)))) 0)
       = ''a!ping''"
    by code_simp
  ultimately show ?thesis by blast
qed

text \<open>
  C6, amended: the input of the name composer is what \<^verbatim>\<open>GetShortName\<close> returns
  for the object, or the name of the item when that is empty. For an item whose
  type has a name composer, and once the expression is evaluated, \<open>Commit\<close> fails
  with the empty name error when this input is empty, that is when the short
  name and the name of the item are both empty; it fails with the name composer
  error when the composed name is empty; otherwise \<open>Commit\<close> goes on, with the
  validation, \<^verbatim>\<open>OnConfigLoaded\<close> and the registration, on an object whose name is
  the composed name and whose short name, when the composed name is not the
  input, is the input.
\<close>

theorem Commit_name_composer:
  assumes "Commit_begin X this s = (Inr dobj, s1)"
    and "Commit_evaluate X this discard dobj s1 = (Inr debugHints, s2)"
    and "NameComposer X (m_Type (item_heap (world s2) this)) = Some nc"
  shows
   "(let short_name = GetShortName X (object_heap (world s2) dobj);
         item_name = (if short_name \<noteq> [] then short_name else m_Name (item_heap (world s2) this));
         s' = (if short_name \<noteq> []
               then in_world (set_object dobj (\<lambda>obj. obj\<lparr>Name := short_name\<rparr>)) s2 else s2);
         name = nc item_name (object_heap (world s') dobj)
     in (item_name = [] \<longrightarrow>
           Commit X this discard s = (Inl (EmptyName (m_DebugInfo (item_heap (world s2) this))), s2))
      \<and> (item_name \<noteq> [] \<and> name = [] \<longrightarrow>
           Commit X this discard s = (Inl NameComposerFailure, s'))
      \<and> (item_name \<noteq> [] \<and> name \<noteq> [] \<longrightarrow>
           (\<exists>s3. Name (object_heap (world s3) dobj) = name
               \<and> ShortName (object_heap (world s3) dobj) =
                   (if name \<noteq> item_name then item_name
                    else ShortName (object_heap (world s2) dobj))
               \<and> Commit X this discard s =
                   (case Commit_validate X this dobj debugHints s3 of
                      (Inl r, s0) \<Rightarrow> (r, s0)
                    | (Inr u, s4) \<Rightarrow>
                        (case Commit_loaded X this dobj s4 of
                           (Inl r, s0) \<Rightarrow> (r, s0)
                         | (Inr u, s5) \<Rightarrow> Commit_finish X this dobj debugHints s5)))))"
proof -
  define short_name where "short_name = GetShortName X (object_heap (world s2) dobj)"
  define item_name where
    "item_name = (if short_name \<noteq> [] then short_name else m_Name (item_heap (world s2) this))"
  define s' where
    "s' = (if short_name \<noteq> []
           then in_world (set_object dobj (\<lambda>obj. obj\<lparr>Name := short_name\<rparr>)) s2 else s2)"
  define name where "name = nc item_name (object_heap (world s') dobj)"
  define s3 where
    "s3 = in_world (set_object dobj (\<lambda>obj. obj\<lparr>Name := name\<rparr>))
            (if name \<noteq> item_name
             then in_world (set_object dobj (\<lambda>obj. obj\<lparr>ShortName := item_name\<rparr>)) s' else s')"
  have c: "Commit X this discard s =
             (case Commit_name X this dobj s2 of
                (Inl r, s0) \<Rightarrow> (r, s0)
              | (Inr u, s3) \<Rightarrow>
                  (case Commit_validate X this dobj debugHints s3 of
                     (Inl r, s0) \<Rightarrow> (r, s0)
                   | (Inr u, s4) \<Rightarrow>
                       (case Commit_loaded X this dobj s4 of
                          (Inl r, s0) \<Rightarrow> (r, s0)
                        | (Inr u, s5) \<Rightarrow> Commit_finish X this dobj debugHints s5)))"
    using assms(1,2) by (simp add: Commit_def)
  have n: "Commit_name X this dobj s2 =
             (if item_name = [] then (Inl (Inl (EmptyName (m_DebugInfo (item_heap (world s2) this)))), s')
              else if name = [] then (Inl (Inl NameComposerFailure), s')
              else (Inr (), s3))"
    using assms(3)
    by (simp add: Commit_name_def Let_def short_name_def item_name_def s'_def name_def s3_def)
  have e: "s' = s2" if "item_name = []"
    using that by (simp add: s'_def item_name_def split: if_splits)
  have o: "Name (object_heap (world s3) dobj) = name"
    "ShortName (object_heap (world s3) dobj) =
       (if name \<noteq> item_name then item_name else ShortName (object_heap (world s2) dobj))"
    by (simp_all add: s3_def s'_def in_world_def set_object_def)
  have 1: "item_name = [] \<longrightarrow>
           Commit X this discard s = (Inl (EmptyName (m_DebugInfo (item_heap (world s2) this))), s2)"
    using e by (simp add: c n)
  have 2: "item_name \<noteq> [] \<and> name = [] \<longrightarrow> Commit X this discard s = (Inl NameComposerFailure, s')"
    by (simp add: c n)
  have 3: "item_name \<noteq> [] \<and> name \<noteq> [] \<longrightarrow>
           (\<exists>s3. Name (object_heap (world s3) dobj) = name
               \<and> ShortName (object_heap (world s3) dobj) =
                   (if name \<noteq> item_name then item_name
                    else ShortName (object_heap (world s2) dobj))
               \<and> Commit X this discard s =
                   (case Commit_validate X this dobj debugHints s3 of
                      (Inl r, s0) \<Rightarrow> (r, s0)
                    | (Inr u, s4) \<Rightarrow>
                        (case Commit_loaded X this dobj s4 of
                           (Inl r, s0) \<Rightarrow> (r, s0)
                         | (Inr u, s5) \<Rightarrow> Commit_finish X this dobj debugHints s5)))"
  proof
    assume "item_name \<noteq> [] \<and> name \<noteq> []"
    then have "Commit X this discard s =
                   (case Commit_validate X this dobj debugHints s3 of
                      (Inl r, s0) \<Rightarrow> (r, s0)
                    | (Inr u, s4) \<Rightarrow>
                        (case Commit_loaded X this dobj s4 of
                           (Inl r, s0) \<Rightarrow> (r, s0)
                         | (Inr u, s5) \<Rightarrow> Commit_finish X this dobj debugHints s5))"
      by (simp add: c n)
    with o show "\<exists>s3. Name (object_heap (world s3) dobj) = name
               \<and> ShortName (object_heap (world s3) dobj) =
                   (if name \<noteq> item_name then item_name
                    else ShortName (object_heap (world s2) dobj))
               \<and> Commit X this discard s =
                   (case Commit_validate X this dobj debugHints s3 of
                      (Inl r, s0) \<Rightarrow> (r, s0)
                    | (Inr u, s4) \<Rightarrow>
                        (case Commit_loaded X this dobj s4 of
                           (Inl r, s0) \<Rightarrow> (r, s0)
                         | (Inr u, s5) \<Rightarrow> Commit_finish X this dobj debugHints s5))"
      by blast
  qed
  show ?thesis
    using 1 2 3 unfolding Let_def short_name_def [symmetric] item_name_def [symmetric]
      s'_def [symmetric] name_def [symmetric]
    by blast
qed

lemma ex_service_begin:
  "Commit_begin ex_X 0 (State_init ex_service_world) =
     (Inr 0, snd (Commit_begin ex_X 0 (State_init ex_service_world)))"
proof -
  have "fst (Commit_begin ex_X 0 (State_init ex_service_world)) = Inr 0" by code_simp
  then show ?thesis by (simp add: prod_eq_iff)
qed

lemma ex_service_evaluate:
  "Commit_evaluate ex_X 0 True 0 (snd (Commit_begin ex_X 0 (State_init ex_service_world))) =
     (Inr [], snd (Commit_evaluate ex_X 0 True 0 (snd (Commit_begin ex_X 0 (State_init ex_service_world)))))"
proof -
  have "fst (Commit_evaluate ex_X 0 True 0 (snd (Commit_begin ex_X 0 (State_init ex_service_world)))) = Inr []"
    by code_simp
  then show ?thesis by (simp add: prod_eq_iff)
qed

lemma ex_service_type:
  "m_Type (item_heap (world (snd (Commit_evaluate ex_X 0 True 0
      (snd (Commit_begin ex_X 0 (State_init ex_service_world)))))) 0) = Some 1"
  "ShortName (object_heap (world (snd (Commit_evaluate ex_X 0 True 0
      (snd (Commit_begin ex_X 0 (State_init ex_service_world)))))) 0) = []"
  "m_Name (item_heap (world (snd (Commit_evaluate ex_X 0 True 0
      (snd (Commit_begin ex_X 0 (State_init ex_service_world)))))) 0) = ''ping''"
  "Fields (object_heap (world (snd (Commit_evaluate ex_X 0 True 0
      (snd (Commit_begin ex_X 0 (State_init ex_service_world)))))) 0) 0 = ''a''"
  by code_simp+

lemma ex_nameless_begin:
  "Commit_begin ex_X 0 (State_init ex_service_nameless) =
     (Inr 0, snd (Commit_begin ex_X 0 (State_init ex_service_nameless)))"
proof -
  have "fst (Commit_begin ex_X 0 (State_init ex_service_nameless)) = Inr 0" by code_simp
  then show ?thesis by (simp add: prod_eq_iff)
qed

lemma ex_nameless_evaluate:
  "Commit_evaluate ex_X 0 True 0 (snd (Commit_begin ex_X 0 (State_init ex_service_nameless))) =
     (Inr [], snd (Commit_evaluate ex_X 0 True 0 (snd (Commit_begin ex_X 0 (State_init ex_service_nameless)))))"
proof -
  have "fst (Commit_evaluate ex_X 0 True 0 (snd (Commit_begin ex_X 0 (State_init ex_service_nameless)))) = Inr []"
    by code_simp
  then show ?thesis by (simp add: prod_eq_iff)
qed

lemma ex_nameless_type:
  "m_Type (item_heap (world (snd (Commit_evaluate ex_X 0 True 0
      (snd (Commit_begin ex_X 0 (State_init ex_service_nameless)))))) 0) = Some 1"
  "ShortName (object_heap (world (snd (Commit_evaluate ex_X 0 True 0
      (snd (Commit_begin ex_X 0 (State_init ex_service_nameless)))))) 0) = []"
  "m_Name (item_heap (world (snd (Commit_evaluate ex_X 0 True 0
      (snd (Commit_begin ex_X 0 (State_init ex_service_nameless)))))) 0) = []"
  "m_DebugInfo (item_heap (world (snd (Commit_evaluate ex_X 0 True 0
      (snd (Commit_begin ex_X 0 (State_init ex_service_nameless)))))) 0) = DebugInfo_at ''services.conf'' 1"
  by code_simp+

lemma ex_service_commit:
  "fst (Commit ex_X 0 True (State_init ex_service_world)) = Inr (Some 0)
   \<and> Name (object_heap (world (snd (Commit ex_X 0 True (State_init ex_service_world)))) 0) = ''a!ping''
   \<and> ShortName (object_heap (world (snd (Commit ex_X 0 True (State_init ex_service_world)))) 0) = ''ping''"
  by code_simp

theorem Commit_name_composer_witness:
  "(\<exists>s3. Name (object_heap (world s3) 0) = ''a!ping''
        \<and> ShortName (object_heap (world s3) 0) = ''ping''
        \<and> Commit ex_X 0 True (State_init ex_service_world) =
            (case Commit_validate ex_X 0 0 [] s3 of
               (Inl r, s0) \<Rightarrow> (r, s0)
             | (Inr u, s4) \<Rightarrow>
                 (case Commit_loaded ex_X 0 0 s4 of
                    (Inl r, s0) \<Rightarrow> (r, s0)
                  | (Inr u, s5) \<Rightarrow> Commit_finish ex_X 0 0 [] s5)))
   \<and> fst (Commit ex_X 0 True (State_init ex_service_world)) = Inr (Some 0)
   \<and> Name (object_heap (world (snd (Commit ex_X 0 True (State_init ex_service_world)))) 0) = ''a!ping''
   \<and> ShortName (object_heap (world (snd (Commit ex_X 0 True (State_init ex_service_world)))) 0) = ''ping''
   \<and> fst (Commit ex_X 0 True (State_init ex_service_nameless)) =
       Inl (EmptyName (DebugInfo_at ''services.conf'' 1))"
proof -
  have nc: "NameComposer ex_X (m_Type (item_heap (world (snd (Commit_evaluate ex_X 0 True 0
      (snd (Commit_begin ex_X 0 (State_init ex_service_world)))))) 0))
      = Some (\<lambda>shortName obj. Fields obj 0 @ ''!'' @ shortName)"
    unfolding ex_service_type by (simp add: NameComposer_def ex_X_def)
  have nc': "NameComposer ex_X (m_Type (item_heap (world (snd (Commit_evaluate ex_X 0 True 0
      (snd (Commit_begin ex_X 0 (State_init ex_service_nameless)))))) 0))
      = Some (\<lambda>shortName obj. Fields obj 0 @ ''!'' @ shortName)"
    unfolding ex_nameless_type by (simp add: NameComposer_def ex_X_def)
  have g: "GetShortName ex_X = ShortName" by (simp add: ex_X_def)
  have 1: "\<exists>s3. Name (object_heap (world s3) 0) = ''a!ping''
        \<and> ShortName (object_heap (world s3) 0) = ''ping''
        \<and> Commit ex_X 0 True (State_init ex_service_world) =
            (case Commit_validate ex_X 0 0 [] s3 of
               (Inl r, s0) \<Rightarrow> (r, s0)
             | (Inr u, s4) \<Rightarrow>
                 (case Commit_loaded ex_X 0 0 s4 of
                    (Inl r, s0) \<Rightarrow> (r, s0)
                  | (Inr u, s5) \<Rightarrow> Commit_finish ex_X 0 0 [] s5))"
    using Commit_name_composer [OF ex_service_begin ex_service_evaluate nc]
    by (simp add: ex_service_type Let_def g)
  have 2: "fst (Commit ex_X 0 True (State_init ex_service_nameless)) =
       Inl (EmptyName (DebugInfo_at ''services.conf'' 1))"
    using Commit_name_composer [OF ex_nameless_begin ex_nameless_evaluate nc']
    by (simp add: ex_nameless_type Let_def g)
  show ?thesis using 1 2 ex_service_commit by blast
qed

subsection \<open>Unregister and CommitItems\<close>

lemma find_in_erase_name:
  "find_in (erase_name t name m) t' name' =
     (if t' = t \<and> name' = name then None else find_in m t' name')"
  by (auto simp: find_in_def erase_name_def Let_def map_of_std_map_set map_of_std_map_index
      map_of_std_map_erase std_map_index_def split: option.splits)

lemma Unregister_item_heap:
  "item_heap (Unregister this w) = (item_heap w)(this := (item_heap w this)\<lparr>m_Object := None\<rparr>)"
  by (cases "m_Object (item_heap w this)";
      simp add: Unregister_def Let_def set_item_def ConfigObject_Unregister_def fun_eq_iff)

lemma Unregister_object_heap: "object_heap (Unregister this w) = object_heap w"
  by (cases "m_Object (item_heap w this)";
      simp add: Unregister_def Let_def set_item_def ConfigObject_Unregister_def)

lemma Unregister_unnamed:
  "m_UnnamedItems (Unregister this w) = removeAll this (m_UnnamedItems w)"
  by (cases "m_Object (item_heap w this)";
      simp add: Unregister_def Let_def set_item_def ConfigObject_Unregister_def)

lemma Unregister_m_Items:
  "m_Items (Unregister this w) =
     erase_name (m_Type (item_heap w this)) (m_Name (item_heap w this)) (m_Items w)"
  "m_DefaultTemplates (Unregister this w) =
     erase_name (m_Type (item_heap w this)) (m_Name (item_heap w this)) (m_DefaultTemplates w)"
  by (cases "m_Object (item_heap w this)";
      simp add: Unregister_def Let_def set_item_def ConfigObject_Unregister_def)+

lemma Unregister_items:
  "find_in (m_Items (Unregister this w)) t name =
     (if t = m_Type (item_heap w this) \<and> name = m_Name (item_heap w this) then None
      else find_in (m_Items w) t name)"
  "find_in (m_DefaultTemplates (Unregister this w)) t name =
     (if t = m_Type (item_heap w this) \<and> name = m_Name (item_heap w this) then None
      else find_in (m_DefaultTemplates w) t name)"
  by (simp_all only: Unregister_m_Items find_in_erase_name)

lemma Unregister_registry:
  "object_registry (Unregister this w) =
     (case m_Object (item_heap w this) of
        None \<Rightarrow> object_registry w
      | Some obj \<Rightarrow> (object_registry w)
          ((ReflectionType (object_heap w obj), Name (object_heap w obj)) := None))"
  by (cases "m_Object (item_heap w this)";
      simp add: Unregister_def Let_def set_item_def ConfigObject_Unregister_def)

lemma unregistered_Unregister: "unregistered (Unregister item w) item"
  by (simp add: unregistered_def GetByTypeAndName_def Unregister_items Unregister_unnamed
      Unregister_item_heap)

lemma unregistered_preserved: "unregistered w item \<Longrightarrow> unregistered (Unregister j w) item"
  by (auto simp add: unregistered_def GetByTypeAndName_def Unregister_items Unregister_unnamed
      Unregister_item_heap)

lemma unregistered_foldl:
  "unregistered w item \<Longrightarrow> unregistered (foldl (\<lambda>w item. Unregister item w) w items) item"
  by (induction items arbitrary: w) (simp_all add: unregistered_preserved)

lemma Unregister_all:
  "item \<in> set items \<Longrightarrow> unregistered (foldl (\<lambda>w item. Unregister item w) w items) item"
proof (induction items arbitrary: w)
  case Nil
  then show ?case by simp
next
  case (Cons x xs)
  show ?case
  proof (cases "item = x")
    case True
    then show ?thesis using unregistered_foldl[OF unregistered_Unregister] by simp
  next
    case False
    then show ?thesis using Cons by simp
  qed
qed

lemma object_unregistered_preserved:
  "object_unregistered w obj \<Longrightarrow> object_unregistered (Unregister j w) obj"
  by (auto simp: object_unregistered_def GetObject_def Unregister_registry Unregister_object_heap
      split: option.splits)

lemma object_unregistered_foldl:
  "object_unregistered w obj \<Longrightarrow> object_unregistered (foldl (\<lambda>w item. Unregister item w) w items) obj"
  by (induction items arbitrary: w) (simp_all add: object_unregistered_preserved)

lemma object_unregistered_Unregister:
  "m_Object (item_heap w item) = Some obj \<Longrightarrow> object_unregistered (Unregister item w) obj"
  by (auto simp: object_unregistered_def GetObject_def Unregister_registry Unregister_object_heap)

lemma Unregister_all_objects:
  "item \<in> set items \<Longrightarrow> m_Object (item_heap w item) = Some obj \<Longrightarrow>
     object_unregistered (foldl (\<lambda>w item. Unregister item w) w items) obj"
proof (induction items arbitrary: w)
  case Nil
  then show ?case by simp
next
  case (Cons x xs)
  show ?case
  proof (cases "item = x")
    case True
    then show ?thesis
      using object_unregistered_foldl[OF object_unregistered_Unregister] Cons.prems by simp
  next
    case False
    then have "m_Object (item_heap (Unregister x w) item) = Some obj"
      using Cons.prems by (simp add: Unregister_item_heap)
    then show ?thesis using Cons False by simp
  qed
qed

text \<open>
  C7: when \<open>CommitNewItems\<close> returns false inside \<open>CommitItems\<close>, then \<open>CommitItems\<close>
  returns false, and every item of \<open>newItems\<close> is in neither the named index, the
  unnamed items nor the default templates and has no object; the object that
  was attached to it is not registered with its type any more.
\<close>

theorem CommitItems_failure_unregisters:
  assumes "CommitNewItems fuel X context 0 s newItems = Some (False, s1, newItems1)"
  shows "\<exists>s'. CommitItems fuel X context s newItems silent = Some (False, s', newItems1)
     \<and> (\<forall>item \<in> set newItems1.
           unregistered (world s') item
           \<and> (\<forall>obj. m_Object (item_heap (world s1) item) = Some obj \<longrightarrow>
                 object_unregistered (world s') obj))"
  using assms
  by (auto simp: CommitItems_def in_world_def Unregister_all Unregister_all_objects)

lemma ex_two_hosts_fail:
  "CommitNewItems 2 ex_X_failing (Some 0) 0 (State_init ex_two_hosts) [] =
     Some (False, fst (snd (the (CommitNewItems 2 ex_X_failing (Some 0) 0 (State_init ex_two_hosts) []))), [0, 1])"
proof -
  have "(case CommitNewItems 2 ex_X_failing (Some 0) 0 (State_init ex_two_hosts) [] of
           None \<Rightarrow> False | Some (b, s, n) \<Rightarrow> \<not> b \<and> n = [0, 1])"
    by code_simp
  then show ?thesis by (auto split: option.splits)
qed

lemma ex_two_hosts_objects:
  "m_Object (item_heap (world (fst (snd (the (CommitNewItems 2 ex_X_failing (Some 0) 0
      (State_init ex_two_hosts) []))))) 0) = Some 0"
  by code_simp

theorem CommitItems_failure_unregisters_witness:
  "fst (the (CommitItems 2 ex_X_failing (Some 0) (State_init ex_two_hosts) [] True)) = False
   \<and> unregistered (world (fst (snd (the (CommitItems 2 ex_X_failing (Some 0)
        (State_init ex_two_hosts) [] True))))) 0
   \<and> unregistered (world (fst (snd (the (CommitItems 2 ex_X_failing (Some 0)
        (State_init ex_two_hosts) [] True))))) 1
   \<and> object_unregistered (world (fst (snd (the (CommitItems 2 ex_X_failing (Some 0)
        (State_init ex_two_hosts) [] True))))) 0"
  using CommitItems_failure_unregisters [OF ex_two_hosts_fail, of True] ex_two_hosts_objects
  by auto

subsection \<open>The trace of CommitNewItems\<close>

lemma extends_by_refl: "extends_by P s s"
  by (simp add: extends_by_def)

lemma extends_by_trans: "extends_by P s s1 \<Longrightarrow> extends_by P s1 s2 \<Longrightarrow> extends_by P s s2"
  by (auto simp: extends_by_def)

lemma extends_by_mono: "extends_by P s s' \<Longrightarrow> (\<And>e. P e \<Longrightarrow> Q e) \<Longrightarrow> extends_by Q s s'"
  by (auto simp: extends_by_def list_all_iff)

lemma extends_by_trace: "trace s' = trace s \<Longrightarrow> extends_by P s s'"
  by (simp add: extends_by_def)

lemma extends_by_log: "P e \<Longrightarrow> trace s' = trace s @ [e] \<Longrightarrow> extends_by P s s'"
  by (simp add: extends_by_def)

lemma trace_in_world [simp]: "trace (in_world f s) = trace s"
  by (simp add: in_world_def)

lemma trace_log_event [simp]: "trace (log_event e s) = trace s @ [e]"
  by (simp add: log_event_def)

lemma trace_call_hook [simp]: "trace (snd (call_hook h s)) = trace s"
  by (simp add: call_hook_def split: prod.splits)

lemma trace_ignore_item [simp]: "trace (ignore_item this s) = trace s"
  by (simp add: ignore_item_def)

lemma hook_step_extends: "P e \<Longrightarrow> extends_by P s (snd (hook_step e h s))"
  by (rule extends_by_log [of P e]) (simp_all add: hook_step_def)

lemma Commit_begin_quiet: "extends_by quiet s (snd (Commit_begin X this s))"
  by (auto simp: Commit_begin_def Let_def quiet_def extends_by_def split: option.splits)

lemma Commit_evaluate_quiet: "extends_by quiet s (snd (Commit_evaluate X this discard dobj s))"
proof (cases "m_Expression (item_heap (world s) this)")
  case None
  then show ?thesis by (simp add: Commit_evaluate_def extends_by_refl)
next
  case (Some expr)
  have "trace (snd (Commit_evaluate X this discard dobj s)) = trace s @ [EvEvaluate this dobj]"
    using Some
    by (auto simp: Commit_evaluate_def Let_def call_hook_def split: prod.splits sum.splits)
  then show ?thesis by (simp add: extends_by_def quiet_def)
qed

lemma Commit_name_quiet: "extends_by quiet s (snd (Commit_name X this dobj s))"
  by (rule extends_by_trace) (simp add: Commit_name_def Let_def split: option.splits)

lemma Commit_validate_quiet: "extends_by quiet s (snd (Commit_validate X this dobj h s))"
proof -
  have "trace (snd (Commit_validate X this dobj h s)) = trace s @ [EvValidate dobj]"
    by (auto simp: Commit_validate_def Let_def call_hook_def
        split: prod.splits option.splits error.splits)
  then show ?thesis by (simp add: extends_by_def quiet_def)
qed

lemma Commit_loaded_quiet: "extends_by quiet s (snd (Commit_loaded X this dobj s))"
proof -
  have "trace (snd (Commit_loaded X this dobj s)) = trace s @ [EvOnConfigLoaded dobj]"
    by (auto simp: Commit_loaded_def Let_def call_hook_def split: prod.splits option.splits)
  then show ?thesis by (simp add: extends_by_def quiet_def)
qed

lemma Commit_finish_quiet: "extends_by quiet s (snd (Commit_finish X this dobj h s))"
  by (auto simp: Commit_finish_def Let_def extends_by_def quiet_def split: sum.splits)

lemma Commit_quiet: "extends_by quiet s (snd (Commit X this discard s))"
proof -
  note t = extends_by_trans
  obtain r1 s1 where b: "Commit_begin X this s = (r1, s1)" by fastforce
  have e1: "extends_by quiet s s1" using Commit_begin_quiet[of s X this] b by simp
  show ?thesis
  proof (cases r1)
    case (Inl r)
    then show ?thesis using b e1 by (simp add: Commit_def)
  next
    case (Inr dobj)
    note r1 = this
    obtain r2 s2 where ev: "Commit_evaluate X this discard dobj s1 = (r2, s2)" by fastforce
    have e2: "extends_by quiet s s2"
      using t[OF e1] Commit_evaluate_quiet[of s1 X this discard dobj] ev by simp
    show ?thesis
    proof (cases r2)
      case (Inl r)
      then show ?thesis using b r1 ev e2 by (simp add: Commit_def)
    next
      case (Inr hints)
      note r2 = this
      obtain r3 s3 where nm: "Commit_name X this dobj s2 = (r3, s3)" by fastforce
      have e3: "extends_by quiet s s3"
        using t[OF e2] Commit_name_quiet[of s2 X this dobj] nm by simp
      show ?thesis
      proof (cases r3)
        case (Inl r)
        then show ?thesis using b r1 ev r2 nm e3 by (simp add: Commit_def)
      next
        case (Inr u3)
        note r3 = this
        obtain r4 s4 where va: "Commit_validate X this dobj hints s3 = (r4, s4)" by fastforce
        have e4: "extends_by quiet s s4"
          using t[OF e3] Commit_validate_quiet[of s3 X this dobj hints] va by simp
        show ?thesis
        proof (cases r4)
          case (Inl r)
          then show ?thesis using b r1 ev r2 nm r3 va e4 by (simp add: Commit_def)
        next
          case (Inr u4)
          note r4 = this
          obtain r5 s5 where lo: "Commit_loaded X this dobj s4 = (r5, s5)" by fastforce
          have e5: "extends_by quiet s s5"
            using t[OF e4] Commit_loaded_quiet[of s4 X this dobj] lo by simp
          have e6: "extends_by quiet s (snd (Commit_finish X this dobj hints s5))"
            using t[OF e5] Commit_finish_quiet[of s5 X this dobj hints] by simp
          show ?thesis
          proof (cases r5)
            case (Inl r)
            then show ?thesis using b r1 ev r2 nm r3 va r4 lo e5 by (simp add: Commit_def)
          next
            case (Inr u5)
            then show ?thesis using b r1 ev r2 nm r3 va r4 lo e6 by (simp add: Commit_def)
          qed
        qed
      qed
    qed
  qed
qed

lemma Commit_task_quiet: "extends_by quiet s (snd (Commit_task X ip s))"
  using Commit_quiet[of s X "fst ip" "snd ip"]
  by (cases "Commit X (fst ip) (snd ip) s") (auto simp: Commit_task_def split: sum.splits)

lemma CreateChildObjects_task_quiet: "extends_by quiet s (snd (CreateChildObjects_task X type item s))"
  by (auto simp: CreateChildObjects_task_def Let_def extends_by_def quiet_def hook_step_def
      call_hook_def split: option.splits prod.splits)

lemma OnAllConfigLoaded_task_extends:
  "extends_by (\<lambda>e. \<exists>i. e = EvAllConfigLoaded depth i (Some type)) s
     (snd (OnAllConfigLoaded_task X depth type item s))"
  by (auto simp: OnAllConfigLoaded_task_def extends_by_def hook_step_def call_hook_def
      split: option.splits prod.splits)

lemma Enqueue_extends: "extends_by P s (snd (task s)) \<Longrightarrow> extends_by P s (Enqueue task s)"
  by (auto simp: Enqueue_def extends_by_def split: prod.splits option.splits)

lemma foldl_Enqueue_extends:
  assumes "\<And>x s. extends_by P s (snd (task x s))"
  shows "extends_by P s (foldl (\<lambda>s x. Enqueue (task x) s) s xs)"
proof (induction xs arbitrary: s)
  case Nil
  show ?case by (simp add: extends_by_refl)
next
  case (Cons x xs)
  have "extends_by P s (Enqueue (task x) s)"
    by (rule Enqueue_extends [of P s "task x"]) (rule assms)
  then show ?case
    using extends_by_trans [OF _ Cons.IH] by simp
qed

lemma Join_trace: "Join s = (b, s') \<Longrightarrow> trace s' = trace s @ [EvJoin b]"
  by (auto simp: Join_def)

lemma phase_extends:
  assumes "extends_by P s s1" and "Join s1 = (b, s')"
  shows "\<exists>evs. trace s' = trace s @ evs @ [EvJoin b] \<and> list_all P evs"
  using assms Join_trace[OF assms(2)] by (auto simp: extends_by_def)

lemma commit_phase_trace:
  "commit_phase X items s = (b, s') \<Longrightarrow>
     \<exists>evs. trace s' = trace s @ evs @ [EvJoin b] \<and> list_all quiet evs"
  unfolding commit_phase_def
  by (rule phase_extends [OF foldl_Enqueue_extends [of quiet "Commit_task X"]])
     (rule Commit_task_quiet)

lemma children_phase_trace:
  "children_phase X type items s = (b, s') \<Longrightarrow>
     \<exists>evs. trace s' = trace s @ evs @ [EvJoin b] \<and> list_all quiet evs"
  unfolding children_phase_def
  by (rule phase_extends [OF foldl_Enqueue_extends [of quiet "CreateChildObjects_task X type"]])
     (rule CreateChildObjects_task_quiet)

lemma load_phase_trace:
  "load_phase X depth type items s = (b, s') \<Longrightarrow>
     \<exists>evs. trace s' = trace s @ evs @ [EvJoin b]
        \<and> list_all (\<lambda>e. \<exists>i. e = EvAllConfigLoaded depth i (Some type)) evs"
  unfolding load_phase_def
  by (rule phase_extends [OF foldl_Enqueue_extends
        [of "\<lambda>e. \<exists>i. e = EvAllConfigLoaded depth i (Some type)" "OnAllConfigLoaded_task X depth type"]])
     (rule OnAllConfigLoaded_task_extends)


lemma joined_same: "trace s' = trace s \<Longrightarrow> joined s s' True"
  by (simp add: joined_def)

lemma joined_failed:
  assumes "\<exists>evs. trace s' = trace s @ evs @ [EvJoin True] \<and> list_all P evs"
  shows "joined s s' False"
  using assms by (auto simp: joined_def)

lemma joined_after:
  assumes "\<exists>evs. trace s1 = trace s @ evs @ [EvJoin False] \<and> list_all P evs"
    and "\<And>e. P e \<Longrightarrow> \<not> is_Join e" and "joined s1 s' r"
  shows "joined s s' r"
proof -
  from assms(1) obtain evs where e: "trace s1 = trace s @ evs @ [EvJoin False]" "list_all P evs"
    by blast
  from assms(3) obtain evs' where e': "trace s' = trace s1 @ evs'" "r \<longleftrightarrow> EvJoin True \<notin> set evs'"
    by (auto simp: joined_def)
  have "EvJoin True \<notin> set evs"
  proof
    assume "EvJoin True \<in> set evs"
    then have "P (EvJoin True)" using e(2) by (simp add: list_all_iff)
    from assms(2) [OF this] show False by simp
  qed
  then show ?thesis using e e' by (auto simp: joined_def)
qed

lemma joined_trans_True: "joined s s1 True \<Longrightarrow> joined s1 s' r \<Longrightarrow> joined s s' r"
  by (auto simp: joined_def)

lemma quiet_not_Join: "quiet e \<Longrightarrow> \<not> is_Join e"
  by (simp add: quiet_def)

lemma loaded_not_Join: "\<exists>i. e = EvAllConfigLoaded depth i (Some type) \<Longrightarrow> \<not> is_Join e"
  by auto

lemma joined_after_quiet:
  "\<exists>evs. trace s1 = trace s @ evs @ [EvJoin False] \<and> list_all quiet evs \<Longrightarrow> joined s1 s' r \<Longrightarrow> joined s s' r"
  by (rule joined_after [OF _ quiet_not_Join])

lemma joined_after_loaded:
  "\<exists>evs. trace s1 = trace s @ evs @ [EvJoin False]
      \<and> list_all (\<lambda>e. \<exists>i. e = EvAllConfigLoaded depth i (Some type)) evs \<Longrightarrow>
   joined s1 s' r \<Longrightarrow> joined s s' r"
  by (rule joined_after [OF _ loaded_not_Join])

lemma CommitNewItems_joined:
  "(\<forall>X ctx depth s newItems r s' n'.
      CommitNewItems fuel X ctx depth s newItems = Some (r, s', n') \<longrightarrow> joined s s' r)
   \<and> (\<forall>X ctx depth items types rest completed s newItems r s' n'.
      CommitNewItems_types fuel X ctx depth items types rest completed s newItems = Some (r, s', n')
        \<longrightarrow> joined s s' r)"
proof (induction fuel)
  case 0
  show ?case by simp
next
  case (Suc fuel)
  note IH1 = Suc.IH [THEN conjunct1, rule_format]
  note IH2 = Suc.IH [THEN conjunct2, rule_format]
  show ?case
  proof (intro conjI allI impI)
    fix X ctx depth s newItems r s' n'
    assume run: "CommitNewItems (Suc fuel) X ctx depth s newItems = Some (r, s', n')"
    define items where "items = named_candidates ctx (world s) @ unnamed_candidates ctx (world s)"
    define s1 where "s1 = in_world (\<lambda>w. w\<lparr>m_UnnamedItems := newUnnamedItems ctx w\<rparr>) s"
    have t1: "trace s1 = trace s" by (simp add: s1_def)
    have run':
      "(if items = [] then Some (True, s1, newItems)
        else (case commit_phase X items s1 of
                (True, s2) \<Rightarrow> Some (False, s2, newItems @ map fst items)
              | (False, s2) \<Rightarrow>
                  CommitNewItems_types fuel X ctx depth items (config_types X) [] [] s2
                    (newItems @ map fst items))) = Some (r, s', n')"
      using run unfolding items_def s1_def by (simp only: CommitNewItems.simps Let_def)
    show "joined s s' r"
    proof (cases "items = []")
      case True
      then have "r = True \<and> s' = s1" using run' by simp
      then show ?thesis using t1 by (simp add: joined_same)
    next
      case False
      obtain b s2 where ph: "commit_phase X items s1 = (b, s2)" by fastforce
      note tr = commit_phase_trace [OF ph, unfolded t1]
      show ?thesis
      proof (cases b)
        case True
        then have "r = False \<and> s' = s2" using run' False ph by simp
        moreover have "joined s s2 False" by (rule joined_failed) (use tr True in simp)
        ultimately show ?thesis by simp
      next
        case b: False
        then have "CommitNewItems_types fuel X ctx depth items (config_types X) [] [] s2
                     (newItems @ map fst items) = Some (r, s', n')"
          using run' False ph by simp
        from IH2 [OF this] have "joined s2 s' r" .
        then show ?thesis by (rule joined_after_quiet [rotated]) (use tr b in simp)
      qed
    qed
  next
    fix X ctx depth items types rest completed s newItems r s' n'
    assume run: "CommitNewItems_types (Suc fuel) X ctx depth items types rest completed s newItems
                   = Some (r, s', n')"
    show "joined s s' r"
    proof (cases rest)
      case Nil
      show ?thesis
      proof (cases "length types \<noteq> length completed")
        case True
        then have "CommitNewItems_types fuel X ctx depth items types types completed s newItems
                     = Some (r, s', n')" using run Nil by simp
        then show ?thesis by (rule IH2)
      next
        case False
        then have "r = True \<and> s' = s" using run Nil by simp
        then show ?thesis by (simp add: joined_same)
      qed
    next
      case (Cons type rest')
      show ?thesis
      proof (cases "type \<in> set completed \<or> unresolved_dep X types completed type")
        case True
        then have "CommitNewItems_types fuel X ctx depth items types rest' completed s newItems
                     = Some (r, s', n')" using run unfolding Cons by (simp only: CommitNewItems_types.simps if_True)
        then show ?thesis by (rule IH2)
      next
        case nskip: False
        have run'':
          "(case load_phase X depth type items s of
              (True, s1) \<Rightarrow> Some (False, s1, newItems)
            | (False, s1) \<Rightarrow>
                (case children_phase X type items s1 of
                   (True, s2) \<Rightarrow> Some (False, s2, newItems)
                 | (False, s2) \<Rightarrow>
                     (case CommitNewItems fuel X ctx (Suc depth) s2 newItems of
                        None \<Rightarrow> None
                      | Some (False, s3, newItems3) \<Rightarrow> Some (False, s3, newItems3)
                      | Some (True, s3, newItems3) \<Rightarrow>
                          CommitNewItems_types fuel X ctx depth items types rest'
                            (std_set_insert type completed) s3 newItems3))) = Some (r, s', n')"
          using run nskip unfolding Cons by (simp only: CommitNewItems_types.simps if_False)
        obtain b1 s1 where l: "load_phase X depth type items s = (b1, s1)" by fastforce
        note tl = load_phase_trace [OF l]
        show ?thesis
        proof (cases b1)
          case True
          then have "r = False \<and> s' = s1" using run'' l by simp
          moreover have "joined s s1 False" by (rule joined_failed) (use tl True in simp)
          ultimately show ?thesis by simp
        next
          case b1: False
          obtain b2 s2 where c: "children_phase X type items s1 = (b2, s2)" by fastforce
          note tc = children_phase_trace [OF c]
          have "joined s1 s' r"
          proof (cases b2)
            case True
            then have "r = False \<and> s' = s2" using run'' l b1 c by simp
            moreover have "joined s1 s2 False" by (rule joined_failed) (use tc True in simp)
            ultimately show ?thesis by simp
          next
            case b2: False
            have "joined s2 s' r"
            proof (cases "CommitNewItems fuel X ctx (Suc depth) s2 newItems")
              case None
              then show ?thesis using run'' l b1 c b2 by simp
            next
              case (Some res)
              obtain r3 s3 n3 where res: "res = (r3, s3, n3)" by (cases res) auto
              have j3: "joined s2 s3 r3" using IH1 [of X ctx "Suc depth" s2 newItems r3 s3 n3] Some res by simp
              show ?thesis
              proof (cases r3)
                case False
                then have "r = False \<and> s' = s3" using run'' l b1 c b2 Some res by simp
                then show ?thesis using j3 False by simp
              next
                case True
                then have "CommitNewItems_types fuel X ctx depth items types rest'
                             (std_set_insert type completed) s3 n3 = Some (r, s', n')"
                  using run'' l b1 c b2 Some res by simp
                from IH2 [OF this] have j4: "joined s3 s' r" .
                show ?thesis using joined_trans_True [OF _ j4] j3 True by simp
              qed
            qed
            then show ?thesis by (rule joined_after_quiet [rotated]) (use tc b2 in simp)
          qed
          then show ?thesis by (rule joined_after_loaded [rotated]) (use tl b1 in simp)
        qed
      qed
    qed
  qed
qed


text \<open>
  What the value says when \<open>CommitNewItems\<close> returns: it is true if and only if
  no join of the call, re-entries included, found an exception in the work
  queue; and with no candidate for the activation context the call returns
  true at once, whatever the queue holds.
\<close>

lemma CommitNewItems_returns_true_iff:
  "(CommitNewItems fuel X ctx depth s newItems = Some (r, s', n') \<longrightarrow>
      (r \<longleftrightarrow> no_exception_observed s s'))
   \<and> (named_candidates ctx (world s) @ unnamed_candidates ctx (world s) = [] \<longrightarrow>
        CommitNewItems (Suc fuel) X ctx depth s newItems =
          Some (True, in_world (\<lambda>w. w\<lparr>m_UnnamedItems := newUnnamedItems ctx w\<rparr>) s, newItems))"
proof (intro conjI impI)
  assume "CommitNewItems fuel X ctx depth s newItems = Some (r, s', n')"
  then have "joined s s' r" using CommitNewItems_joined by blast
  then show "r \<longleftrightarrow> no_exception_observed s s'"
    by (auto simp: joined_def no_exception_observed_def)
next
  assume "named_candidates ctx (world s) @ unnamed_candidates ctx (world s) = []"
  then show "CommitNewItems (Suc fuel) X ctx depth s newItems =
          Some (True, in_world (\<lambda>w. w\<lparr>m_UnnamedItems := newUnnamedItems ctx w\<rparr>) s, newItems)"
    by (simp add: Let_def)
qed

lemma ex_host_commit:
  "CommitNewItems 8 ex_X (Some 0) 0 (State_init ex_host_world) [] =
     Some (True, fst (snd (the (CommitNewItems 8 ex_X (Some 0) 0 (State_init ex_host_world) []))), [0])"
proof -
  have "(case CommitNewItems 8 ex_X (Some 0) 0 (State_init ex_host_world) [] of
           None \<Rightarrow> False | Some (b, s, n) \<Rightarrow> b \<and> n = [0])"
    by code_simp
  then show ?thesis by (auto split: option.splits)
qed

lemma ex_host_commit_no_exception:
  "no_exception_observed (State_init ex_host_world)
     (fst (snd (the (CommitNewItems 8 ex_X (Some 0) 0 (State_init ex_host_world) []))))"
  using CommitNewItems_returns_true_iff [of 8 ex_X "Some 0" 0 "State_init ex_host_world" "[]" True
      "fst (snd (the (CommitNewItems 8 ex_X (Some 0) 0 (State_init ex_host_world) [])))" "[0]"]
    ex_host_commit
  by simp

subsection \<open>An ignored item that stays a candidate\<close>

lemma ex_bad_world_pending: "ex_bad_pending (State_init ex_bad_world)"
  by (simp add: ex_bad_pending_def State_init_def ex_bad_world_def Register_def new_ConfigItem_def
      ex_scope_def World_init_def set_item_def ex_bad_item_def ConfigItem_new_def NameComposer_def
      ex_X_def std_map_index_def Let_def GetCurrentContext_def)

lemma pending_candidates:
  "ex_bad_pending s \<Longrightarrow>
     named_candidates (Some 0) (world s) @ unnamed_candidates (Some 0) (world s) = [(0, False)]"
  by (simp add: ex_bad_pending_def named_candidates_def unnamed_candidates_def uncommitted_def
      ex_bad_item_def ConfigItem_new_def)

lemma pending_swap:
  "ex_bad_pending s \<Longrightarrow>
     ex_bad_pending (in_world (\<lambda>w. w\<lparr>m_UnnamedItems := newUnnamedItems (Some 0) w\<rparr>) s)"
  by (simp add: ex_bad_pending_def in_world_def newUnnamedItems_def)

lemma pending_Commit:
  assumes "ex_bad_pending s"
  shows "fst (Commit ex_X_throwing 0 False s) = Inr None
     \<and> ex_bad_pending (snd (Commit ex_X_throwing 0 False s))"
  using assms
  by (simp add: ex_bad_pending_def Commit_def Commit_begin_def Commit_evaluate_def Let_def
      ex_bad_item_def ConfigItem_new_def ex_X_throwing_def ex_X_def call_hook_def log_event_def
      in_world_def ignore_item_def)

lemma pending_commit_phase:
  assumes "ex_bad_pending s"
  shows "fst (commit_phase ex_X_throwing [(0, False)] s) = False
     \<and> ex_bad_pending (snd (commit_phase ex_X_throwing [(0, False)] s))"
  using pending_Commit [OF assms] assms
  by (cases "Commit ex_X_throwing 0 False s")
     (auto simp: commit_phase_def Join_def Enqueue_def Commit_task_def ex_bad_pending_def log_event_def)

lemma pending_load_phase:
  assumes "ex_bad_pending s"
  shows "fst (load_phase ex_X_throwing depth 0 [(0, False)] s) = False
     \<and> ex_bad_pending (snd (load_phase ex_X_throwing depth 0 [(0, False)] s))"
  using assms
  by (simp add: load_phase_def loaded_items_def Join_def ex_bad_pending_def log_event_def
      ex_bad_item_def ConfigItem_new_def)

lemma pending_children_phase:
  assumes "ex_bad_pending s"
  shows "fst (children_phase ex_X_throwing 0 [(0, False)] s) = False
     \<and> ex_bad_pending (snd (children_phase ex_X_throwing 0 [(0, False)] s))"
  using assms
  by (simp add: children_phase_def parent_items_def Join_def ex_bad_pending_def log_event_def
      ex_X_throwing_def ex_X_def)

lemma ex_throwing_types:
  "config_types ex_X_throwing = [0, 1]" "\<not> unresolved_dep ex_X_throwing [0, 1] [] 0"
  by (simp_all add: config_types_def unresolved_dep_def std_set_insert_def ex_X_throwing_def ex_X_def)

lemma pending_never_returns:
  "(\<forall>s depth newItems. ex_bad_pending s \<longrightarrow>
      CommitNewItems fuel ex_X_throwing (Some 0) depth s newItems = None)
   \<and> (\<forall>s depth newItems. ex_bad_pending s \<longrightarrow>
      CommitNewItems_types fuel ex_X_throwing (Some 0) depth [(0, False)] [0, 1] [] [] s newItems = None)
   \<and> (\<forall>s depth newItems. ex_bad_pending s \<longrightarrow>
      CommitNewItems_types fuel ex_X_throwing (Some 0) depth [(0, False)] [0, 1] [0, 1] [] s newItems = None)"
proof (induction fuel)
  case 0
  show ?case by simp
next
  case (Suc fuel)
  note A = Suc.IH [THEN conjunct1, rule_format]
  note B = Suc.IH [THEN conjunct2, THEN conjunct1, rule_format]
  note C = Suc.IH [THEN conjunct2, THEN conjunct2, rule_format]
  show ?case
  proof (intro conjI allI impI)
    fix s depth newItems assume p: "ex_bad_pending s"
    define s1 where "s1 = in_world (\<lambda>w. w\<lparr>m_UnnamedItems := newUnnamedItems (Some 0) w\<rparr>) s"
    have p1: "ex_bad_pending s1" unfolding s1_def by (rule pending_swap [OF p])
    obtain s2 where c: "commit_phase ex_X_throwing [(0, False)] s1 = (False, s2)" and p2: "ex_bad_pending s2"
      using pending_commit_phase [OF p1] by (cases "commit_phase ex_X_throwing [(0, False)] s1") auto
    show "CommitNewItems (Suc fuel) ex_X_throwing (Some 0) depth s newItems = None"
      using pending_candidates [OF p] c B [OF p2]
      by (simp add: Let_def s1_def [symmetric] ex_throwing_types)
  next
    fix s depth newItems assume p: "ex_bad_pending s"
    show "CommitNewItems_types (Suc fuel) ex_X_throwing (Some 0) depth [(0, False)] [0, 1] [] [] s newItems = None"
      using C [OF p] by simp
  next
    fix s depth newItems assume p: "ex_bad_pending s"
    obtain s1 where l: "load_phase ex_X_throwing depth 0 [(0, False)] s = (False, s1)" and p1: "ex_bad_pending s1"
      using pending_load_phase [OF p, of depth] by (cases "load_phase ex_X_throwing depth 0 [(0, False)] s") auto
    obtain s2 where c: "children_phase ex_X_throwing 0 [(0, False)] s1 = (False, s2)" and p2: "ex_bad_pending s2"
      using pending_children_phase [OF p1] by (cases "children_phase ex_X_throwing 0 [(0, False)] s1") auto
    show "CommitNewItems_types (Suc fuel) ex_X_throwing (Some 0) depth [(0, False)] [0, 1] [0, 1] [] s newItems = None"
      using l c A [OF p2] ex_throwing_types(2) by simp
  qed
qed

lemma ex_bad_round:
  "fst (Commit ex_X_throwing 0 False (State_init ex_bad_world)) = Inr None
   \<and> m_IgnoredItems (world (snd (Commit ex_X_throwing 0 False (State_init ex_bad_world)))) = [''/p/bad.conf'']
   \<and> m_Object (item_heap (world (snd (Commit ex_X_throwing 0 False (State_init ex_bad_world)))) 0) = None
   \<and> named_candidates (Some 0) (world (snd (Commit ex_X_throwing 0 False (State_init ex_bad_world))))
       = [(0, False)]
   \<and> fst (commit_phase ex_X_throwing [(0, False)] (State_init ex_bad_world)) = False"
  by code_simp

text \<open>
  C9: the claim fails on the code. The host \<open>bad\<close> is the only candidate, it is to
  be ignored on error and its expression throws. \<open>Commit\<close> records the path of the
  item and returns null, but, unlike the task for \<^verbatim>\<open>OnAllConfigLoaded\<close>, which
  unregisters the item that it ignores, it leaves the item registered and
  without an object. The item is a candidate again in every re-entry, the join
  finds no exception in the work queue, and neither \<open>CommitNewItems\<close> nor
  \<open>CommitItems\<close> returns, whatever the fuel: the call does not return true
  although no join of it observed an exception.
\<close>

theorem CommitNewItems_ignored_item_never_returns:
  "named_candidates (Some 0) ex_bad_world @ unnamed_candidates (Some 0) ex_bad_world = [(0, False)]
   \<and> m_IgnoreOnError (item_heap ex_bad_world 0)
   \<and> fst (Commit ex_X_throwing 0 False (State_init ex_bad_world)) = Inr None
   \<and> m_IgnoredItems (world (snd (Commit ex_X_throwing 0 False (State_init ex_bad_world)))) = [''/p/bad.conf'']
   \<and> m_Object (item_heap (world (snd (Commit ex_X_throwing 0 False (State_init ex_bad_world)))) 0) = None
   \<and> named_candidates (Some 0) (world (snd (Commit ex_X_throwing 0 False (State_init ex_bad_world))))
       = [(0, False)]
   \<and> fst (commit_phase ex_X_throwing [(0, False)] (State_init ex_bad_world)) = False
   \<and> CommitNewItems fuel ex_X_throwing (Some 0) 0 (State_init ex_bad_world) [] = None
   \<and> CommitItems fuel ex_X_throwing (Some 0) (State_init ex_bad_world) [] True = None"
proof -
  note p = ex_bad_world_pending
  have n: "CommitNewItems fuel ex_X_throwing (Some 0) 0 (State_init ex_bad_world) [] = None"
    using pending_never_returns [of fuel] p by blast
  have i: "m_IgnoreOnError (item_heap ex_bad_world 0)"
    using p by (simp add: ex_bad_pending_def State_init_def ex_bad_item_def ConfigItem_new_def)
  show ?thesis
    using pending_candidates [OF p] n i ex_bad_round by (simp add: CommitItems_def State_init_def)
qed


subsection \<open>The order of OnAllConfigLoaded\<close>

lemma level_Nil: "level X depth C []"
  by (simp add: level_def loaded_in_order_def joined_between_def)

lemma no_events_in_order:
  "(\<And>i t. EvAllConfigLoaded depth i t \<notin> set evs) \<Longrightarrow> loaded_in_order X depth evs"
  unfolding loaded_in_order_def sorted_wrt_iff_nth_less by (metis nth_mem)

lemma no_events_joined:
  "(\<And>i t. EvAllConfigLoaded depth i t \<notin> set evs) \<Longrightarrow> joined_between depth evs"
  unfolding joined_between_def by (metis nth_mem order_less_trans)

lemma joined_between_append:
  assumes "joined_between depth evs1" and "joined_between depth evs2"
    and "(\<forall>i t. EvAllConfigLoaded depth i t \<notin> set evs1)
         \<or> (\<forall>i t. EvAllConfigLoaded depth i t \<notin> set evs2)
         \<or> (evs1 \<noteq> [] \<and> is_Join (last evs1))"
  shows "joined_between depth (evs1 @ evs2)"
  unfolding joined_between_def
proof (intro allI impI)
  fix p q i j A B
  assume "p < q \<and> q < length (evs1 @ evs2)
        \<and> (evs1 @ evs2) ! p = EvAllConfigLoaded depth i (Some A)
        \<and> (evs1 @ evs2) ! q = EvAllConfigLoaded depth j (Some B) \<and> A \<noteq> B"
  then have pq: "p < q" and ql: "q < length evs1 + length evs2"
    and ep: "(evs1 @ evs2) ! p = EvAllConfigLoaded depth i (Some A)"
    and eq: "(evs1 @ evs2) ! q = EvAllConfigLoaded depth j (Some B)" and ne: "A \<noteq> B"
    by simp_all
  let ?n = "length evs1"
  consider (left) "q < ?n" | (right) "?n \<le> p" | (across) "p < ?n" "?n \<le> q" by linarith
  then show "\<exists>k. p < k \<and> k < q \<and> is_Join ((evs1 @ evs2) ! k)"
  proof cases
    case left
    have pl: "p < ?n" using pq left by simp
    have "evs1 ! p = EvAllConfigLoaded depth i (Some A)" using ep pl by (simp add: nth_append)
    moreover have "evs1 ! q = EvAllConfigLoaded depth j (Some B)" using eq left by (simp add: nth_append)
    ultimately obtain k where k: "p < k" "k < q" "is_Join (evs1 ! k)"
      using assms(1) pq left ne unfolding joined_between_def by blast
    then show ?thesis using left by (intro exI [of _ k]) (simp add: nth_append)
  next
    case right
    have qr: "?n \<le> q" using pq right by simp
    have "evs2 ! (p - ?n) = EvAllConfigLoaded depth i (Some A)" using ep right by (simp add: nth_append)
    moreover have "evs2 ! (q - ?n) = EvAllConfigLoaded depth j (Some B)" using eq qr by (simp add: nth_append)
    moreover have "p - ?n < q - ?n" "q - ?n < length evs2" using pq ql right by simp_all
    ultimately obtain k where k: "p - ?n < k" "k < q - ?n" "is_Join (evs2 ! k)"
      using assms(2) ne unfolding joined_between_def by blast
    have "p < k + ?n" "k + ?n < q" using k right by simp_all
    moreover have "(evs1 @ evs2) ! (k + ?n) = evs2 ! k" by (simp add: nth_append)
    ultimately show ?thesis using k(3) by (intro exI [of _ "k + ?n"]) simp
  next
    case across
    have e1p: "evs1 ! p = EvAllConfigLoaded depth i (Some A)" using ep across(1) by (simp add: nth_append)
    then have e1: "EvAllConfigLoaded depth i (Some A) \<in> set evs1" using across(1) by (metis nth_mem)
    have "evs2 ! (q - ?n) = EvAllConfigLoaded depth j (Some B)" "q - ?n < length evs2"
      using eq ql across(2) by (simp_all add: nth_append)
    then have e2: "EvAllConfigLoaded depth j (Some B) \<in> set evs2" by (metis nth_mem)
    from assms(3) e1 e2 have l: "evs1 \<noteq> []" "is_Join (last evs1)" by auto
    have "\<not> is_Join (evs1 ! p)" by (simp add: e1p)
    then have "evs1 ! p \<noteq> last evs1" using l(2) by metis
    then have "p \<noteq> ?n - 1" using l(1) by (auto simp: last_conv_nth)
    then have "p < ?n - 1" "?n - 1 < q" using across l(1) by simp_all
    moreover have "(evs1 @ evs2) ! (?n - 1) = last evs1" using l(1) by (simp add: nth_append last_conv_nth)
    ultimately show ?thesis using l(2) by (intro exI [of _ "?n - 1"]) simp
  qed
qed

lemma level_quiet: "list_all (\<lambda>e. \<not> is_AllConfigLoaded e) evs \<Longrightarrow> level X depth C evs"
  unfolding level_def
  by (intro conjI allI impI no_events_in_order no_events_joined) (auto simp: list_all_iff)

lemma level_deeper:
  assumes "\<forall>d i t. EvAllConfigLoaded d i t \<in> set evs \<longrightarrow> Suc depth \<le> d"
  shows "level X depth C evs"
proof -
  have n: "EvAllConfigLoaded depth i t \<notin> set evs" for i t using assms by fastforce
  have "depth \<le> d" if "EvAllConfigLoaded d i t \<in> set evs" for d i t
    using assms that by fastforce
  then show ?thesis
    unfolding level_def
    by (intro conjI allI impI no_events_in_order no_events_joined) (use n in auto)
qed

lemma level_append:
  assumes "level X depth C evs1" and "level X depth C' evs2" and "C \<subseteq> C'"
    and "\<And>i j A B. EvAllConfigLoaded depth i (Some A) \<in> set evs1 \<Longrightarrow>
            EvAllConfigLoaded depth j (Some B) \<in> set evs2 \<Longrightarrow> \<not> (LoadDependency X)\<^sup>+\<^sup>+ A B"
    and "(\<forall>i t. EvAllConfigLoaded depth i t \<notin> set evs1)
         \<or> (\<forall>i t. EvAllConfigLoaded depth i t \<notin> set evs2)
         \<or> (evs1 \<noteq> [] \<and> is_Join (last evs1))"
  shows "level X depth C (evs1 @ evs2)"
proof -
  have "loaded_in_order X depth (evs1 @ evs2)"
    using assms(1,2,4) unfolding level_def loaded_in_order_def sorted_wrt_append by blast
  moreover have "joined_between depth (evs1 @ evs2)"
    by (rule joined_between_append) (use assms(1,2,5) in \<open>simp_all add: level_def\<close>)
  moreover have "\<forall>i T. EvAllConfigLoaded depth i (Some T) \<in> set (evs1 @ evs2) \<longrightarrow>
      T \<notin> C \<and> \<not> (LoadDependency X)\<^sup>+\<^sup>+ T T"
    using assms(1,2,3) unfolding level_def by auto
  moreover have "\<forall>d i t. EvAllConfigLoaded d i t \<in> set (evs1 @ evs2) \<longrightarrow> depth \<le> d"
  proof (intro allI impI)
    fix d i t assume "EvAllConfigLoaded d i t \<in> set (evs1 @ evs2)"
    then have "EvAllConfigLoaded d i t \<in> set evs1 \<or> EvAllConfigLoaded d i t \<in> set evs2" by simp
    then show "depth \<le> d" using assms(1,2) unfolding level_def by blast
  qed
  ultimately show ?thesis unfolding level_def by blast
qed

lemma level_append_quiet:
  assumes "level X depth C evs" and "list_all (\<lambda>e. \<not> is_AllConfigLoaded e) evs'"
  shows "level X depth C (evs' @ evs)" "level X depth C (evs @ evs')"
proof -
  have q: "level X depth C evs'" by (rule level_quiet) (rule assms(2))
  have n: "\<And>d i t. EvAllConfigLoaded d i t \<notin> set evs'"
    using assms(2) by (auto simp: list_all_iff)
  show "level X depth C (evs' @ evs)"
    by (rule level_append [OF q assms(1)]) (use n in auto)
  show "level X depth C (evs @ evs')"
    by (rule level_append [OF assms(1) q]) (use n in auto)
qed

lemma level_mono: "level X depth C' evs \<Longrightarrow> C \<subseteq> C' \<Longrightarrow> level X depth C evs"
  unfolding level_def by (auto simp: subset_iff)

lemma deps_closed_rtranclp:
  "(LoadDependency X)\<^sup>*\<^sup>* T U \<Longrightarrow> deps_closed X C \<Longrightarrow> T \<in> C \<Longrightarrow> U \<in> C"
  by (induction rule: rtranclp_induct) (auto simp: deps_closed_def)

lemma resolved_deps:
  assumes "\<not> unresolved_dep X (config_types X) completed T" and "LoadDependency X T U"
  shows "U \<in> set completed"
  using assms
  by (auto simp: unresolved_dep_def LoadDependency_def list_ex_iff split: option.splits)

lemma resolved_tranclp:
  assumes "deps_closed X (set completed)" and "\<not> unresolved_dep X (config_types X) completed T"
    and "(LoadDependency X)\<^sup>+\<^sup>+ T B"
  shows "B \<in> set completed"
proof -
  from assms(3) obtain U where "LoadDependency X T U" "(LoadDependency X)\<^sup>*\<^sup>* U B"
    by (auto dest: tranclpD)
  then show ?thesis using resolved_deps[OF assms(2)] deps_closed_rtranclp[OF _ assms(1)] by blast
qed

lemma deps_closed_insert:
  assumes "deps_closed X (set completed)" and "\<not> unresolved_dep X (config_types X) completed T"
  shows "deps_closed X (set (std_set_insert T completed))"
  using assms resolved_deps[OF assms(2)]
  by (auto simp: deps_closed_def std_set_insert_def set_insort_key)

lemma set_std_set_insert: "set (std_set_insert T completed) = insert T (set completed)"
  by (auto simp: std_set_insert_def set_insort_key)

lemma level_loaded:
  assumes "list_all (\<lambda>e. \<exists>i. e = EvAllConfigLoaded depth i (Some T)) evs"
    and "deps_closed X (set completed)" and "\<not> unresolved_dep X (config_types X) completed T"
    and "T \<notin> set completed"
  shows "level X depth (set completed) evs"
proof -
  have nn: "\<not> (LoadDependency X)\<^sup>+\<^sup>+ T T"
    using resolved_tranclp[OF assms(2,3)] assms(4) by blast
  have "loaded_in_order X depth evs"
    unfolding loaded_in_order_def sorted_wrt_iff_nth_less
  proof (intro allI impI)
    fix p q i j A B
    assume pq: "p < q" "q < length evs"
      and e: "evs ! p = EvAllConfigLoaded depth i (Some A) \<and> evs ! q = EvAllConfigLoaded depth j (Some B)"
    have "evs ! p \<in> set evs" "evs ! q \<in> set evs" using pq by simp_all
    then have "A = T" "B = T" using assms(1) e by (auto simp: list_all_iff)
    then show "\<not> (LoadDependency X)\<^sup>+\<^sup>+ A B" using nn by simp
  qed
  moreover have "joined_between depth evs"
    unfolding joined_between_def
  proof (intro allI impI)
    fix p q i j A B
    assume a: "p < q \<and> q < length evs
        \<and> evs ! p = EvAllConfigLoaded depth i (Some A)
        \<and> evs ! q = EvAllConfigLoaded depth j (Some B) \<and> A \<noteq> B"
    then have "p < length evs" "q < length evs" by simp_all
    then have "EvAllConfigLoaded depth i (Some A) \<in> set evs"
      "EvAllConfigLoaded depth j (Some B) \<in> set evs"
      using a by (metis nth_mem)+
    then have "A = T" "B = T" using assms(1) by (auto simp: list_all_iff)
    then show "\<exists>k. p < k \<and> k < q \<and> is_Join (evs ! k)" using a by simp
  qed
  moreover have "\<forall>i U. EvAllConfigLoaded depth i (Some U) \<in> set evs \<longrightarrow>
      U \<notin> set completed \<and> \<not> (LoadDependency X)\<^sup>+\<^sup>+ U U"
    using assms(1,4) nn by (auto simp: list_all_iff)
  moreover have "\<forall>d i t. EvAllConfigLoaded d i t \<in> set evs \<longrightarrow> depth \<le> d"
    using assms(1) by (auto simp: list_all_iff)
  ultimately show ?thesis by (simp add: level_def)
qed


lemma below_same: "trace s' = trace s \<Longrightarrow> below depth s s'"
  by (simp add: below_def)

lemma below_trans: "below depth s s1 \<Longrightarrow> below depth s1 s2 \<Longrightarrow> below depth s s2"
  unfolding below_def by fastforce

lemma below_quiet_phase:
  assumes "\<exists>evs. trace s' = trace s @ evs @ [EvJoin b] \<and> list_all quiet evs"
  shows "below depth s s'"
proof -
  from assms obtain evs where e: "trace s' = trace s @ evs @ [EvJoin b]" "list_all quiet evs" by blast
  have "\<forall>d i t. EvAllConfigLoaded d i t \<notin> set (evs @ [EvJoin b])"
    using e(2) by (auto simp: list_all_iff quiet_def)
  then show ?thesis using e(1) unfolding below_def by (intro exI [of _ "evs @ [EvJoin b]"]) simp
qed

lemma below_leveled: "leveled X (Suc depth) C s s' \<Longrightarrow> below depth s s'"
  unfolding leveled_def below_def level_def by blast

lemma leveled_same: "trace s' = trace s \<Longrightarrow> leveled X depth C s s'"
  by (simp add: leveled_def level_Nil)

lemma leveled_of_below: "below depth s s' \<Longrightarrow> leveled X depth C s s'"
  unfolding leveled_def below_def using level_deeper by blast

lemma leveled_below:
  assumes "below depth s s1" and "leveled X depth C s1 s'"
  shows "leveled X depth C s s'"
proof -
  from assms(1) obtain evs where e: "trace s1 = trace s @ evs"
    "\<forall>d i t. EvAllConfigLoaded d i t \<in> set evs \<longrightarrow> Suc depth \<le> d" by (auto simp: below_def)
  from assms(2) obtain evs' where e': "trace s' = trace s1 @ evs'" "level X depth C evs'"
    by (auto simp: leveled_def)
  have "level X depth C (evs @ evs')"
  proof (rule level_append [OF level_deeper [OF e(2)] e'(2)])
    show "C \<subseteq> C" by simp
  next
    fix i j A B assume "EvAllConfigLoaded depth i (Some A) \<in> set evs"
    then have "Suc depth \<le> depth" using e(2) by blast
    then show "\<not> (LoadDependency X)\<^sup>+\<^sup>+ A B" by simp
  next
    have "EvAllConfigLoaded depth i t \<notin> set evs" for i t using e(2) by fastforce
    then show "(\<forall>i t. EvAllConfigLoaded depth i t \<notin> set evs)
         \<or> (\<forall>i t. EvAllConfigLoaded depth i t \<notin> set evs')
         \<or> (evs \<noteq> [] \<and> is_Join (last evs))" by blast
  qed
  then show ?thesis using e(1) e'(1) by (auto simp: leveled_def)
qed

lemma leveled_loaded_phase:
  assumes "\<exists>evs. trace s1 = trace s @ evs @ [EvJoin b]
             \<and> list_all (\<lambda>e. \<exists>i. e = EvAllConfigLoaded depth i (Some T)) evs"
    and "deps_closed X (set completed)" and "\<not> unresolved_dep X (config_types X) completed T"
    and "T \<notin> set completed"
    and "leveled X depth (insert T (set completed)) s1 s'"
  shows "leveled X depth (set completed) s s'"
proof -
  from assms(1) obtain evs where e: "trace s1 = trace s @ evs @ [EvJoin b]"
    "list_all (\<lambda>e. \<exists>i. e = EvAllConfigLoaded depth i (Some T)) evs" by blast
  from assms(5) obtain evs' where e': "trace s' = trace s1 @ evs'"
    "level X depth (insert T (set completed)) evs'" by (auto simp: leveled_def)
  have l1: "level X depth (set completed) (evs @ [EvJoin b])"
    by (rule level_append_quiet(2) [OF level_loaded [OF e(2) assms(2,3,4)]]) simp
  have "level X depth (set completed) ((evs @ [EvJoin b]) @ evs')"
  proof (rule level_append [OF l1 e'(2)])
    show "set completed \<subseteq> insert T (set completed)" by blast
  next
    fix i j A B
    assume a: "EvAllConfigLoaded depth i (Some A) \<in> set (evs @ [EvJoin b])"
      and b: "EvAllConfigLoaded depth j (Some B) \<in> set evs'"
    from a have "A = T" using e(2) by (auto simp: list_all_iff)
    moreover from b have "B \<notin> set completed" using e'(2) unfolding level_def by blast
    ultimately show "\<not> (LoadDependency X)\<^sup>+\<^sup>+ A B"
      using resolved_tranclp [OF assms(2,3)] by blast
  next
    show "(\<forall>i t. EvAllConfigLoaded depth i t \<notin> set (evs @ [EvJoin b]))
         \<or> (\<forall>i t. EvAllConfigLoaded depth i t \<notin> set evs')
         \<or> (evs @ [EvJoin b] \<noteq> [] \<and> is_Join (last (evs @ [EvJoin b])))" by simp
  qed
  then show ?thesis using e(1) e'(1) by (auto simp: leveled_def)
qed

lemma CommitNewItems_leveled:
  "(\<forall>X ctx depth s newItems r s' n'.
      CommitNewItems fuel X ctx depth s newItems = Some (r, s', n') \<longrightarrow> leveled X depth {} s s')
   \<and> (\<forall>X ctx depth items rest completed s newItems r s' n'.
      CommitNewItems_types fuel X ctx depth items (config_types X) rest completed s newItems
        = Some (r, s', n') \<longrightarrow> deps_closed X (set completed) \<longrightarrow>
      leveled X depth (set completed) s s')"
proof (induction fuel)
  case 0
  show ?case by simp
next
  case (Suc fuel)
  note IH1 = Suc.IH [THEN conjunct1, rule_format]
  note IH2 = Suc.IH [THEN conjunct2, rule_format]
  show ?case
  proof (intro conjI allI impI)
    fix X ctx depth s newItems r s' n'
    assume run: "CommitNewItems (Suc fuel) X ctx depth s newItems = Some (r, s', n')"
    define items where "items = named_candidates ctx (world s) @ unnamed_candidates ctx (world s)"
    define s1 where "s1 = in_world (\<lambda>w. w\<lparr>m_UnnamedItems := newUnnamedItems ctx w\<rparr>) s"
    have t1: "trace s1 = trace s" by (simp add: s1_def)
    have run':
      "(if items = [] then Some (True, s1, newItems)
        else (case commit_phase X items s1 of
                (True, s2) \<Rightarrow> Some (False, s2, newItems @ map fst items)
              | (False, s2) \<Rightarrow>
                  CommitNewItems_types fuel X ctx depth items (config_types X) [] [] s2
                    (newItems @ map fst items))) = Some (r, s', n')"
      using run unfolding items_def s1_def by (simp only: CommitNewItems.simps Let_def)
    show "leveled X depth {} s s'"
    proof (cases "items = []")
      case True
      then have "s' = s1" using run' by simp
      then show ?thesis using t1 by (simp add: leveled_same)
    next
      case False
      obtain b s2 where ph: "commit_phase X items s1 = (b, s2)" by fastforce
      have bl: "below depth s s2"
        by (rule below_quiet_phase [of _ _ b]) (use commit_phase_trace [OF ph] t1 in simp)
      show ?thesis
      proof (cases b)
        case True
        then have "s' = s2" using run' False ph by simp
        then show ?thesis using leveled_of_below [OF bl] by simp
      next
        case b: False
        then have "CommitNewItems_types fuel X ctx depth items (config_types X) [] [] s2
                     (newItems @ map fst items) = Some (r, s', n')"
          using run' False ph by simp
        from IH2 [OF this] have "leveled X depth {} s2 s'" by (simp add: deps_closed_def)
        then show ?thesis by (rule leveled_below [OF bl])
      qed
    qed
  next
    fix X ctx depth items rest completed s newItems r s' n'
    assume run: "CommitNewItems_types (Suc fuel) X ctx depth items (config_types X) rest completed s
                   newItems = Some (r, s', n')"
      and cl: "deps_closed X (set completed)"
    show "leveled X depth (set completed) s s'"
    proof (cases rest)
      case Nil
      show ?thesis
      proof (cases "length (config_types X) \<noteq> length completed")
        case True
        then have "CommitNewItems_types fuel X ctx depth items (config_types X) (config_types X)
                     completed s newItems = Some (r, s', n')" using run Nil by simp
        then show ?thesis using cl by (rule IH2)
      next
        case False
        then have "s' = s" using run Nil by simp
        then show ?thesis by (simp add: leveled_same)
      qed
    next
      case (Cons type rest')
      show ?thesis
      proof (cases "type \<in> set completed \<or> unresolved_dep X (config_types X) completed type")
        case True
        then have "CommitNewItems_types fuel X ctx depth items (config_types X) rest' completed s
                     newItems = Some (r, s', n')"
          using run unfolding Cons by (simp only: CommitNewItems_types.simps if_True)
        then show ?thesis using cl by (rule IH2)
      next
        case nskip: False
        then have nc: "type \<notin> set completed"
          and res: "\<not> unresolved_dep X (config_types X) completed type" by simp_all
        have run'':
          "(case load_phase X depth type items s of
              (True, s1) \<Rightarrow> Some (False, s1, newItems)
            | (False, s1) \<Rightarrow>
                (case children_phase X type items s1 of
                   (True, s2) \<Rightarrow> Some (False, s2, newItems)
                 | (False, s2) \<Rightarrow>
                     (case CommitNewItems fuel X ctx (Suc depth) s2 newItems of
                        None \<Rightarrow> None
                      | Some (False, s3, newItems3) \<Rightarrow> Some (False, s3, newItems3)
                      | Some (True, s3, newItems3) \<Rightarrow>
                          CommitNewItems_types fuel X ctx depth items (config_types X) rest'
                            (std_set_insert type completed) s3 newItems3))) = Some (r, s', n')"
          using run nskip unfolding Cons by (simp only: CommitNewItems_types.simps if_False)
        obtain b1 s1 where l: "load_phase X depth type items s = (b1, s1)" by fastforce
        note tl = load_phase_trace [OF l]
        have "leveled X depth (insert type (set completed)) s1 s'"
        proof (cases b1)
          case True
          then have "s' = s1" using run'' l by simp
          then show ?thesis by (simp add: leveled_same)
        next
          case b1: False
          obtain b2 s2 where c: "children_phase X type items s1 = (b2, s2)" by fastforce
          have bl2: "below depth s1 s2"
            by (rule below_quiet_phase [of _ _ b2]) (use children_phase_trace [OF c] in simp)
          have "leveled X depth (insert type (set completed)) s2 s'"
          proof (cases b2)
            case True
            then have "s' = s2" using run'' l b1 c by simp
            then show ?thesis by (simp add: leveled_same)
          next
            case b2: False
            show ?thesis
            proof (cases "CommitNewItems fuel X ctx (Suc depth) s2 newItems")
              case None
              then show ?thesis using run'' l b1 c b2 by simp
            next
              case (Some res3)
              obtain r3 s3 n3 where res3: "res3 = (r3, s3, n3)" by (cases res3) auto
              have "leveled X (Suc depth) {} s2 s3"
                using IH1 [of X ctx "Suc depth" s2 newItems r3 s3 n3] Some res3 by simp
              then have bl3: "below depth s2 s3" by (rule below_leveled)
              have "leveled X depth (insert type (set completed)) s3 s'"
              proof (cases r3)
                case False
                then have "s' = s3" using run'' l b1 c b2 Some res3 by simp
                then show ?thesis by (simp add: leveled_same)
              next
                case True
                then have "CommitNewItems_types fuel X ctx depth items (config_types X) rest'
                             (std_set_insert type completed) s3 n3 = Some (r, s', n')"
                  using run'' l b1 c b2 Some res3 by simp
                from IH2 [OF this deps_closed_insert [OF cl res]]
                show ?thesis by (simp add: set_std_set_insert)
              qed
              then show ?thesis by (rule leveled_below [OF bl3])
            qed
          qed
          then show ?thesis by (rule leveled_below [OF bl2])
        qed
        then show ?thesis by (rule leveled_loaded_phase [OF tl cl res nc])
      qed
    qed
  qed
qed

lemma ex_four_run:
  "(case CommitNewItems 30 ex_X4 (Some 0) 0 (State_init ex_four) [] of
      None \<Rightarrow> False
    | Some (r, s, n) \<Rightarrow>
        r \<and> n = [0, 1, 2, 3]
        \<and> filter is_AllConfigLoaded (trace s) =
            [EvAllConfigLoaded 0 0 (Some 0), EvAllConfigLoaded 1 2 (Some 1),
             EvAllConfigLoaded 2 3 (Some 3), EvAllConfigLoaded 0 1 (Some 2)]
        \<and> m_Type (item_heap (world s) 3) = Some 3 \<and> m_Type (item_heap (world s) 1) = Some 2
        \<and> m_Object (item_heap (world s) 3) = Some 3 \<and> m_Object (item_heap (world s) 1) = Some 1)"
  by code_simp

lemma ex_four_types:
  "IsAssignableFrom ex_X4 2 \<and> IsAssignableFrom ex_X4 3
   \<and> GetLoadDependencies ex_X4 3 = [''B'', ''S''] \<and> GetByName ex_X4 ''B'' = Some 2"
  by (simp add: ex_X4_def ex_types4_def ex_X_def)

text \<open>
  C3, as the claim states it, fails. In the example of the four types the run
  completes and returns true; \<open>B\<close> is a load dependency of \<open>A\<close>; item 3 is the
  committed instance \<open>a1\<close> of \<open>A\<close> and item 1 the committed instance \<open>b0\<close> of \<open>B\<close>;
  and \<^verbatim>\<open>OnAllConfigLoaded\<close> of \<open>a1\<close>, enqueued by the re-entry at depth 2, comes
  before that of \<open>b0\<close>, enqueued by the outermost call.
\<close>

theorem CommitNewItems_load_order_counterexample:
  "fst (the (CommitNewItems 30 ex_X4 (Some 0) 0 (State_init ex_four) [])) = True
   \<and> filter is_AllConfigLoaded
       (trace (fst (snd (the (CommitNewItems 30 ex_X4 (Some 0) 0 (State_init ex_four) []))))) =
     [EvAllConfigLoaded 0 0 (Some 0), EvAllConfigLoaded 1 2 (Some 1),
      EvAllConfigLoaded 2 3 (Some 3), EvAllConfigLoaded 0 1 (Some 2)]
   \<and> IsAssignableFrom ex_X4 2 \<and> IsAssignableFrom ex_X4 3
   \<and> GetLoadDependencies ex_X4 3 = [''B'', ''S''] \<and> GetByName ex_X4 ''B'' = Some 2
   \<and> m_Type (item_heap (world (fst (snd (the (CommitNewItems 30 ex_X4 (Some 0) 0
         (State_init ex_four) []))))) 3) = Some 3
   \<and> m_Type (item_heap (world (fst (snd (the (CommitNewItems 30 ex_X4 (Some 0) 0
         (State_init ex_four) []))))) 1) = Some 2
   \<and> m_Object (item_heap (world (fst (snd (the (CommitNewItems 30 ex_X4 (Some 0) 0
         (State_init ex_four) []))))) 3) = Some 3
   \<and> m_Object (item_heap (world (fst (snd (the (CommitNewItems 30 ex_X4 (Some 0) 0
         (State_init ex_four) []))))) 1) = Some 1"
  using ex_four_run ex_four_types
  by (cases "CommitNewItems 30 ex_X4 (Some 0) 0 (State_init ex_four) []") auto

lemma level_loaded_after_join:
  assumes "level X depth C evs"
  shows "loaded_after_join X depth evs"
  unfolding loaded_after_join_def
proof (intro allI impI)
  fix p q i j A B
  assume a: "p < length evs \<and> q < length evs
        \<and> evs ! p = EvAllConfigLoaded depth i (Some B) \<and> evs ! q = EvAllConfigLoaded depth j (Some A)
        \<and> (LoadDependency X)\<^sup>+\<^sup>+ A B"
  have o: "loaded_in_order X depth evs" and jb: "joined_between depth evs"
    and ns: "\<forall>i T. EvAllConfigLoaded depth i (Some T) \<in> set evs \<longrightarrow> \<not> (LoadDependency X)\<^sup>+\<^sup>+ T T"
    using assms by (simp_all add: level_def)
  have "EvAllConfigLoaded depth j (Some A) \<in> set evs" using a by (metis nth_mem)
  then have "\<not> (LoadDependency X)\<^sup>+\<^sup>+ A A" using ns by blast
  then have ne: "B \<noteq> A" using a by blast
  have "\<not> q < p"
  proof
    assume "q < p"
    then have "\<not> (LoadDependency X)\<^sup>+\<^sup>+ A B"
      using o a unfolding loaded_in_order_def sorted_wrt_iff_nth_less by blast
    then show False using a by simp
  qed
  moreover have "p \<noteq> q" using a ne by auto
  ultimately have "p < q" by simp
  then show "\<exists>k. p < k \<and> k < q \<and> is_Join (evs ! k)"
    using jb a ne unfolding joined_between_def by blast
qed

text \<open>
  C3, amended: the order holds among the items that one invocation of
  \<open>CommitNewItems\<close> collected. In every run that returns, for config object types
  \<open>A\<close> and \<open>B\<close> with \<open>B\<close> a load dependency of \<open>A\<close>, directly or through other
  config object types, every \<^verbatim>\<open>OnAllConfigLoaded\<close> task that an invocation enqueued
  for an item of \<open>B\<close> was enqueued, and joined, before any task that the same
  invocation enqueued for an item of \<open>A\<close>: the event of the first comes first and
  a join of the work queue lies between the two. Items that a re-entry commits
  are loaded inside the re-entry, whenever that is.
\<close>

theorem CommitNewItems_load_order:
  assumes "CommitNewItems fuel X ctx depth s newItems = Some (r, s', n')"
  shows "\<exists>evs. trace s' = trace s @ evs \<and> loaded_in_order X depth evs
           \<and> loaded_after_join X depth evs"
proof -
  have "leveled X depth {} s s'"
    using CommitNewItems_leveled [of fuel, THEN conjunct1, rule_format, OF assms] .
  then obtain evs where e: "trace s' = trace s @ evs" and l: "level X depth {} evs"
    by (auto simp: leveled_def)
  have "loaded_after_join X depth evs" by (rule level_loaded_after_join [OF l])
  then show ?thesis using e l by (auto simp: level_def)
qed

lemma ex_host_service_run:
  "(case CommitNewItems 8 ex_X (Some 0) 0 (State_init ex_host_service) [] of
      None \<Rightarrow> False
    | Some (r, s, n) \<Rightarrow>
        trace s =
          [EvInstantiate (Some 0) 0, EvEvaluate 0 0, EvValidate 0, EvOnConfigLoaded 0,
           EvWriteObject 0, EvRegisterObject 0,
           EvInstantiate (Some 1) 1, EvEvaluate 1 1, EvValidate 1, EvOnConfigLoaded 1,
           EvWriteObject 1, EvRegisterObject 1, EvJoin False,
           EvAllConfigLoaded 0 0 (Some 0), EvJoin False, EvJoin False,
           EvAllConfigLoaded 0 1 (Some 1), EvJoin False,
           EvCreateChildObjects 0 (Some 1), EvJoin False])"
  by code_simp

lemma ex_host_service_dependency: "(LoadDependency ex_X)\<^sup>+\<^sup>+ 1 0"
  by (rule tranclp.r_into_trancl)
     (simp add: LoadDependency_def config_types_def std_set_insert_def ex_X_def)

theorem CommitNewItems_load_order_witness:
  "(LoadDependency ex_X)\<^sup>+\<^sup>+ 1 0
   \<and> trace (fst (snd (the (CommitNewItems 8 ex_X (Some 0) 0 (State_init ex_host_service) [])))) =
       [EvInstantiate (Some 0) 0, EvEvaluate 0 0, EvValidate 0, EvOnConfigLoaded 0,
        EvWriteObject 0, EvRegisterObject 0,
        EvInstantiate (Some 1) 1, EvEvaluate 1 1, EvValidate 1, EvOnConfigLoaded 1,
        EvWriteObject 1, EvRegisterObject 1, EvJoin False,
        EvAllConfigLoaded 0 0 (Some 0), EvJoin False, EvJoin False,
        EvAllConfigLoaded 0 1 (Some 1), EvJoin False,
        EvCreateChildObjects 0 (Some 1), EvJoin False]
   \<and> loaded_in_order ex_X 0
       (trace (fst (snd (the (CommitNewItems 8 ex_X (Some 0) 0 (State_init ex_host_service) [])))))
   \<and> loaded_after_join ex_X 0
       (trace (fst (snd (the (CommitNewItems 8 ex_X (Some 0) 0 (State_init ex_host_service) [])))))"
proof (cases "CommitNewItems 8 ex_X (Some 0) 0 (State_init ex_host_service) []")
  case None
  then show ?thesis using ex_host_service_run by simp
next
  case (Some res)
  obtain r s n where res: "res = (r, s, n)" by (cases res) auto
  show ?thesis
    using CommitNewItems_load_order [of 8 ex_X "Some 0" 0 "State_init ex_host_service" "[]" r s n]
      ex_host_service_run ex_host_service_dependency Some res
    by (simp add: State_init_def)
qed

subsection \<open>ReloadObject\<close>

lemma hook_step_trace: "trace (snd (hook_step e h s)) = trace s @ [e]"
  by (simp add: hook_step_def)

lemma pure_step_trace: "trace (snd (pure_step e f s)) = trace s @ [e]"
  by (simp add: pure_step_def)

lemma run_steps_trace:
  "list_all2 (\<lambda>f e. \<forall>s. trace (snd (f s)) = trace s @ [e]) fs es \<Longrightarrow>
     run_steps fs s = (None, s') \<Longrightarrow> trace s' = trace s @ es"
proof (induction fs es arbitrary: s rule: list_all2_induct)
  case Nil
  then show ?case by simp
next
  case (Cons f fs e es)
  obtain r s1 where f: "f s = (r, s1)" by fastforce
  then have r: "r = None" and rest: "run_steps fs s1 = (None, s')"
    using Cons.prems by (auto split: option.splits)
  have "trace s1 = trace s @ [e]" using Cons.hyps(1) f by (metis snd_conv)
  then show ?case using Cons.IH [OF rest] by simp
qed

lemma recover_steps_events:
  "list_all2 (\<lambda>f e. \<forall>s. trace (snd (f s)) = trace s @ [e]) (recover_steps X doi) (recover_events doi)"
  by (simp add: recover_steps_def recover_events_def hook_step_trace pure_step_trace
      list_all2_appendI split: option.splits)

lemma RestoreObject_reinserted:
  "RestoreObject X True doi s = (None, s') \<Longrightarrow> reinserted X doi s s'"
  unfolding reinserted_def
  by (auto simp: RestoreObject_def Let_def dest: run_steps_trace [OF recover_steps_events])

lemma run_steps_walk:
  "run_steps (map (RestoreObject X True) deletedObjects) s = (r, s') \<Longrightarrow>
     \<exists>k ss. k \<le> length deletedObjects \<and> restore_walk X (take k deletedObjects) ss \<and> hd ss = s
        \<and> (if k = length deletedObjects then r = None \<and> s' = last ss
            else \<exists>ex'. r = Some ex'
                   \<and> RestoreObject X True (deletedObjects ! k) (last ss) = (Some ex', s'))"
proof (induction deletedObjects arbitrary: s)
  case Nil
  then show ?case by (intro exI [of _ 0] exI [of _ "[s]"]) simp
next
  case (Cons doi ds)
  obtain r1 s1 where f: "RestoreObject X True doi s = (r1, s1)" by fastforce
  show ?case
  proof (cases r1)
    case (Some ex')
    then have "r = Some ex'" "s' = s1" using Cons.prems f by simp_all
    then show ?thesis using f Some by (intro exI [of _ 0] exI [of _ "[s]"]) simp
  next
    case None
    then have rest: "run_steps (map (RestoreObject X True) ds) s1 = (r, s')"
      using Cons.prems f by simp
    from Cons.IH [OF rest] obtain k ss where k: "k \<le> length ds"
      and ss: "restore_walk X (take k ds) ss" "hd ss = s1"
      and e: "if k = length ds then r = None \<and> s' = last ss
              else \<exists>ex'. r = Some ex' \<and> RestoreObject X True (ds ! k) (last ss) = (Some ex', s')"
      by blast
    obtain ss' where ss': "ss = s1 # ss'" using ss by (cases ss; cases "take k ds") auto
    have w: "restore_walk X (take (Suc k) (doi # ds)) (s # ss)"
      using ss(1) ss' RestoreObject_reinserted [of X doi s s1] f None by simp
    have l: "last (s # ss) = last ss" using ss' by simp
    show ?thesis
      using k w e l by (intro exI [of _ "Suc k"] exI [of _ "s # ss"]) (simp split: if_splits)
  qed
qed

text \<open>The list of the deleted objects starts with the object of the call.\<close>

lemma DeleteObjectHelper_grows:
  "(\<forall>X obj acc s r dos s'.
      DeleteObjectHelper fuel X obj acc s = Some (r, dos, s') \<longrightarrow>
      prefix (acc @ [(obj, GetByTypeAndName (ReflectionType (object_heap (world s) obj))
                            (Name (object_heap (world s) obj)) (world s))]) dos)
   \<and> (\<forall>X ps acc s r dos s'.
      DeleteObjectHelper_parents fuel X ps acc s = Some (r, dos, s') \<longrightarrow> prefix acc dos)"
proof (induction fuel)
  case 0
  show ?case by simp
next
  case (Suc fuel)
  note IH1 = Suc.IH [THEN conjunct1, rule_format]
  note IH2 = Suc.IH [THEN conjunct2, rule_format]
  show ?case
  proof (intro conjI allI impI)
    fix X obj acc s r dos s'
    assume run: "DeleteObjectHelper (Suc fuel) X obj acc s = Some (r, dos, s')"
    define item where "item = GetByTypeAndName (ReflectionType (object_heap (world s) obj))
                            (Name (object_heap (world s) obj)) (world s)"
    obtain r1 s1 where
      "DeleteObjectHelper_parents fuel X (GetParents X obj (world s)) (acc @ [(obj, item)]) s
         = Some (r1, dos, s1)"
      using run unfolding item_def
      by (auto simp: Let_def split: option.splits prod.splits)
    from IH2 [OF this] show "prefix (acc @ [(obj, GetByTypeAndName
        (ReflectionType (object_heap (world s) obj)) (Name (object_heap (world s) obj)) (world s))]) dos"
      by (simp add: item_def)
  next
    fix X ps acc s r dos s'
    assume run: "DeleteObjectHelper_parents (Suc fuel) X ps acc s = Some (r, dos, s')"
    show "prefix acc dos"
    proof (cases ps)
      case Nil
      then show ?thesis using run by simp
    next
      case (Cons pobj parents)
      show ?thesis
      proof (cases pobj)
        case None
        then have "DeleteObjectHelper_parents fuel X parents acc s = Some (r, dos, s')"
          using run Cons by simp
        then show ?thesis by (rule IH2)
      next
        case (Some parentObj)
        obtain r1 d1 s1 where h: "DeleteObjectHelper fuel X parentObj acc s = Some (r1, d1, s1)"
          using run Cons Some by (auto split: option.splits)
        have p1: "prefix acc d1" using IH1 [OF h] by (auto dest: append_prefixD)
        show ?thesis
        proof (cases r1)
          case (Some ex)
          then have "dos = d1" using run Cons \<open>pobj = Some parentObj\<close> h by simp
          then show ?thesis using p1 by simp
        next
          case None
          then have "DeleteObjectHelper_parents fuel X parents d1 s1 = Some (r, dos, s')"
            using run Cons \<open>pobj = Some parentObj\<close> h by simp
          from IH2 [OF this] p1 show ?thesis by (rule prefix_order.trans [rotated])
        qed
      qed
    qed
  qed
qed

lemma run_steps_None:
  "(\<And>f s. f \<in> set fs \<Longrightarrow> fst (f s) = None) \<Longrightarrow> fst (run_steps fs s) = None"
proof (induction fs arbitrary: s)
  case Nil
  show ?case by simp
next
  case (Cons f fs)
  have "fst (f s) = None" using Cons.prems by simp
  then obtain s1 where "f s = (None, s1)" by (cases "f s") auto
  then show ?case using Cons by simp
qed

lemma RestoreObjectsHelper_no_throw:
  assumes "\<And>obj w. fst (OnConfigLoaded X obj w) = None"
    and "\<And>obj w. fst (OnAllConfigLoaded X obj w) = None"
    and "\<And>obj w. fst (PreActivate X obj w) = None"
    and "\<And>obj b w. fst (Activate X obj b w) = None"
    and "\<And>doi. doi \<in> set deletedObjects \<Longrightarrow> snd doi = None"
  shows "fst (RestoreObjectsHelper X deletedObjects recoverApply s) = None"
proof -
  have hook: "fst (hook_step e h s) = None" if "\<And>w. fst (h w) = None" for e h s
    using that [of "world (log_event e s)"]
    by (cases "h (world (log_event e s))") (auto simp: hook_step_def call_hook_def)
  have rec: "fst (run_steps (recover_steps X doi) s) = None" if "snd doi = None" for doi s
    by (rule run_steps_None) (use that assms(1-4) in \<open>auto simp: recover_steps_def pure_step_def intro!: hook\<close>)
  have one: "fst (RestoreObject X recoverApply doi s) = None" if "doi \<in> set deletedObjects" for doi s
    using rec [OF assms(5) [OF that]]
    by (simp add: RestoreObject_def Let_def pure_step_def split: option.splits)
  have "fst (run_steps (map (RestoreObject X recoverApply) deletedObjects) s) = None" for s
    by (rule run_steps_None) (use one in auto)
  from this [of "in_world (\<lambda>w. snd (ActivationScope_enter None w)) s"]
  show ?thesis
    by (cases "run_steps (map (RestoreObject X recoverApply) deletedObjects)
                 (in_world (\<lambda>w. snd (ActivationScope_enter None w)) s)")
       (simp add: RestoreObjectsHelper_def)
qed

lemma ex_reload_delete:
  "DeleteObjectHelper 5 ex_X_reload 0 [] ex_committed = Some (None, [(0, Some 0)], ex_reload_deleted)"
proof -
  have "(case DeleteObjectHelper 5 ex_X_reload 0 [] ex_committed of
           None \<Rightarrow> False | Some (r, d, s) \<Rightarrow> r = None \<and> d = [(0, Some 0)])"
    by code_simp
  then show ?thesis by (auto simp: ex_reload_deleted_def split: option.splits)
qed

lemma ex_reload_rebuild:
  "ReloadObject_rebuild 5 ex_X_reload 0 True (ScriptFunction 7) ex_reload_deleted =
     Some (Some (OtherException ''boom''), ex_rebuild_failed)"
proof -
  have "(case ReloadObject_rebuild 5 ex_X_reload 0 True (ScriptFunction 7) ex_reload_deleted of
           None \<Rightarrow> False | Some (r, s) \<Rightarrow> r = Some (OtherException ''boom''))"
    by code_simp
  then show ?thesis by (auto simp: ex_rebuild_failed_def split: option.splits)
qed

lemma ex_reload_restore:
  "(case RestoreObjectsHelper ex_X_reload [(0, Some 0)] True ex_rebuild_failed of
      (r, s) \<Rightarrow>
        r = Some (DuplicateDefinition ''Host'' ''a'' (DebugInfo_at ''hosts.conf'' 1)
                    (DebugInfo_at ''hosts.conf'' 1))
        \<and> GetObject (Some 0) ''a'' (world s) = None
        \<and> trace s = trace ex_committed @
            [EvSetExtension 0 ''ConfigObjectDeleted'' True, EvDeactivate 0 True,
             EvSetExtension 0 ''ConfigObjectDeleted'' False, EvRegisterItem 0])"
  by code_simp

text \<open>
  C4, as the claim states it, fails. The host \<open>a\<close> is live; the callback
  registers an item for a host \<open>a\<close> and throws. The deleted object has no new
  object of its type and name, but the walk stops when it registers the old
  item again, which is a duplicate now: the object is not registered, loaded or
  activated, and the caller gets the duplicate definition error, not the
  exception of the callback.
\<close>

theorem ReloadObject_restore_counterexample:
  "DeleteObjectHelper 5 ex_X_reload 0 [] ex_committed = Some (None, [(0, Some 0)], ex_reload_deleted)
   \<and> ReloadObject_rebuild 5 ex_X_reload 0 True (ScriptFunction 7) ex_reload_deleted =
       Some (Some (OtherException ''boom''), ex_rebuild_failed)
   \<and> GetObject (Some 0) ''a'' (world ex_rebuild_failed) = None
   \<and> fst (the (ReloadObject 5 ex_X_reload (Some 0) True (Some (ScriptFunction 7)) ex_committed)) =
       Some (DuplicateDefinition ''Host'' ''a'' (DebugInfo_at ''hosts.conf'' 1)
               (DebugInfo_at ''hosts.conf'' 1))
   \<and> GetObject (Some 0) ''a''
        (world (snd (the (ReloadObject 5 ex_X_reload (Some 0) True (Some (ScriptFunction 7))
           ex_committed)))) = None
   \<and> trace (snd (the (ReloadObject 5 ex_X_reload (Some 0) True (Some (ScriptFunction 7))
        ex_committed))) =
       trace ex_committed @
       [EvSetExtension 0 ''ConfigObjectDeleted'' True, EvDeactivate 0 True,
        EvSetExtension 0 ''ConfigObjectDeleted'' False, EvRegisterItem 0]"
proof -
  have g: "GetObject (Some 0) ''a'' (world ex_rebuild_failed) = None" by code_simp
  obtain r s3 where h: "RestoreObjectsHelper ex_X_reload [(0, Some 0)] True ex_rebuild_failed = (r, s3)"
    by fastforce
  have "ReloadObject 5 ex_X_reload (Some 0) True (Some (ScriptFunction 7)) ex_committed =
          Some (r, s3)"
    using ex_reload_restore h by (simp add: ReloadObject_def ex_reload_delete ex_reload_rebuild)
  then show ?thesis using ex_reload_restore h g ex_reload_delete ex_reload_rebuild by simp
qed

text \<open>
  C4, amended: when the objects are deleted and the block that rebuilds them
  throws, \<open>ReloadObject\<close> runs the walk of \<open>RestoreObjectsHelper\<close> with
  \<open>recoverApply\<close> true. The walk follows the list of the deleted objects, which
  starts with the object of the call. Each entry that had no object registered
  under its type and name at its turn is put back, whatever its creation type,
  by the calls of \<open>recover_events\<close> in this order. When no step throws, every
  entry was handled and the exception of the rebuild reaches the caller. When
  the step for an entry throws, the entries before it were handled, the walk
  ends in the state in which that step threw, nothing is done for the entries
  after it, and the exception of the step is the one that reaches the caller.
\<close>

theorem ReloadObject_restores_on_failure:
  assumes "DeleteObjectHelper fuel X obj [] s = Some (None, deletedObjects, s1)"
    and "ReloadObject_rebuild fuel X obj destroyFirst cb s1 = Some (Some ex, s2)"
  shows "\<exists>r s3 k ss.
       RestoreObjectsHelper X deletedObjects True s2 = (r, s3)
     \<and> ReloadObject fuel X (Some obj) destroyFirst (Some cb) s =
         Some (Some (case r of None \<Rightarrow> ex | Some ex' \<Rightarrow> ex'), s3)
     \<and> deletedObjects \<noteq> [] \<and> fst (hd deletedObjects) = obj
     \<and> k \<le> length deletedObjects
     \<and> restore_walk X (take k deletedObjects) ss
     \<and> hd ss = in_world (\<lambda>w. snd (ActivationScope_enter None w)) s2
     \<and> (if k = length deletedObjects
         then r = None \<and> s3 = in_world ActivationScope_leave (last ss)
         else \<exists>ex' st. RestoreObject X True (deletedObjects ! k) (last ss) = (Some ex', st)
                \<and> r = Some ex' \<and> s3 = in_world ActivationScope_leave st)"
proof -
  obtain r st where w: "run_steps (map (RestoreObject X True) deletedObjects)
            (in_world (\<lambda>w. snd (ActivationScope_enter None w)) s2) = (r, st)" by fastforce
  define s3 where "s3 = in_world ActivationScope_leave st"
  have h: "RestoreObjectsHelper X deletedObjects True s2 = (r, s3)"
    using w by (simp add: RestoreObjectsHelper_def s3_def)
  have 1: "ReloadObject fuel X (Some obj) destroyFirst (Some cb) s =
         Some (Some (case r of None \<Rightarrow> ex | Some ex' \<Rightarrow> ex'), s3)"
    using assms h by (simp add: ReloadObject_def split: option.splits)
  have "prefix ([] @ [(obj, GetByTypeAndName (ReflectionType (object_heap (world s) obj))
                            (Name (object_heap (world s) obj)) (world s))]) deletedObjects"
    using DeleteObjectHelper_grows [of fuel, THEN conjunct1, rule_format, OF assms(1)] .
  then have 2: "deletedObjects \<noteq> [] \<and> fst (hd deletedObjects) = obj"
    by (auto simp: prefix_def)
  from run_steps_walk [OF w] obtain k ss where k: "k \<le> length deletedObjects"
    and ss: "restore_walk X (take k deletedObjects) ss"
      "hd ss = in_world (\<lambda>w. snd (ActivationScope_enter None w)) s2"
    and e: "if k = length deletedObjects then r = None \<and> st = last ss
            else \<exists>ex'. r = Some ex'
                   \<and> RestoreObject X True (deletedObjects ! k) (last ss) = (Some ex', st)"
    by blast
  have 3: "if k = length deletedObjects
         then r = None \<and> s3 = in_world ActivationScope_leave (last ss)
         else \<exists>ex' st. RestoreObject X True (deletedObjects ! k) (last ss) = (Some ex', st)
                \<and> r = Some ex' \<and> s3 = in_world ActivationScope_leave st"
    using e by (auto simp: s3_def split: if_splits)
  show ?thesis using h 1 2 k ss 3 by blast
qed

lemma ex_two_delete:
  "DeleteObjectHelper 5 ex_X_parents 0 [] ex_two_live =
     Some (None, [(0, Some 0), (1, Some 1)], ex_two_deleted)"
proof -
  have "(case DeleteObjectHelper 5 ex_X_parents 0 [] ex_two_live of
           None \<Rightarrow> False | Some (r, d, s) \<Rightarrow> r = None \<and> d = [(0, Some 0), (1, Some 1)])"
    by code_simp
  then show ?thesis by (auto simp: ex_two_deleted_def split: option.splits)
qed

lemma ex_two_rebuild:
  "ReloadObject_rebuild 5 ex_X_parents 0 True (ScriptFunction 7) ex_two_deleted =
     Some (Some (OtherException ''boom''), ex_two_failed)"
proof -
  have "(case ReloadObject_rebuild 5 ex_X_parents 0 True (ScriptFunction 7) ex_two_deleted of
           None \<Rightarrow> False | Some (r, s) \<Rightarrow> r = Some (OtherException ''boom''))"
    by code_simp
  then show ?thesis by (auto simp: ex_two_failed_def split: option.splits)
qed

lemma ex_two_step:
  "(case RestoreObject ex_X_parents True (0, Some 0)
           (in_world (\<lambda>w. snd (ActivationScope_enter None w)) ex_two_failed) of
      (r, s) \<Rightarrow>
        r = Some (DuplicateDefinition ''Host'' ''a'' (DebugInfo_at ''hosts.conf'' 1)
                    (DebugInfo_at ''hosts.conf'' 1))
        \<and> GetObject (Some 0) ''a'' (world s) = None
        \<and> GetObject (Some 0) ''b'' (world s) = None
        \<and> trace s =
            [EvSetExtension 1 ''ConfigObjectDeleted'' True, EvDeactivate 1 True,
             EvSetExtension 0 ''ConfigObjectDeleted'' True, EvDeactivate 0 True,
             EvSetExtension 0 ''ConfigObjectDeleted'' False, EvRegisterItem 0])"
  by code_simp

lemma ex_two_restore:
  "RestoreObjectsHelper ex_X_parents [(0, Some 0), (1, Some 1)] True ex_two_failed =
     (Some (DuplicateDefinition ''Host'' ''a'' (DebugInfo_at ''hosts.conf'' 1)
              (DebugInfo_at ''hosts.conf'' 1)),
      in_world ActivationScope_leave ex_two_stopped)"
  using ex_two_step
  by (cases "RestoreObject ex_X_parents True (0, Some 0)
               (in_world (\<lambda>w. snd (ActivationScope_enter None w)) ex_two_failed)")
     (simp add: RestoreObjectsHelper_def ex_two_stopped_def)

lemma ex_two_state:
  "GetObject (Some 0) ''b'' (world ex_two_live) = Some 1
   \<and> GetObject (Some 0) ''b'' (world ex_two_stopped) = None
   \<and> trace ex_two_stopped =
        [EvSetExtension 1 ''ConfigObjectDeleted'' True, EvDeactivate 1 True,
         EvSetExtension 0 ''ConfigObjectDeleted'' True, EvDeactivate 0 True,
         EvSetExtension 0 ''ConfigObjectDeleted'' False, EvRegisterItem 0]"
proof -
  have "GetObject (Some 0) ''b'' (world ex_two_live) = Some 1" by code_simp
  then show ?thesis
    using ex_two_step
    by (cases "RestoreObject ex_X_parents True (0, Some 0)
                 (in_world (\<lambda>w. snd (ActivationScope_enter None w)) ex_two_failed)")
       (simp add: ex_two_stopped_def)
qed

lemma ex_service_delete:
  "DeleteObjectHelper 5 ex_X_reload 0 [] ex_service_live = Some (None, [(0, None)], ex_service_deleted)"
proof -
  have "(case DeleteObjectHelper 5 ex_X_reload 0 [] ex_service_live of
           None \<Rightarrow> False | Some (r, d, s) \<Rightarrow> r = None \<and> d = [(0, None)])"
    by code_simp
  then show ?thesis by (auto simp: ex_service_deleted_def split: option.splits)
qed

lemma ex_service_rebuild:
  "ReloadObject_rebuild 5 ex_X_reload 0 True (ScriptFunction 8) ex_service_deleted =
     Some (Some (OtherException ''boom''), ex_service_failed)"
proof -
  have "(case ReloadObject_rebuild 5 ex_X_reload 0 True (ScriptFunction 8) ex_service_deleted of
           None \<Rightarrow> False | Some (r, s) \<Rightarrow> r = Some (OtherException ''boom''))"
    by code_simp
  then show ?thesis by (auto simp: ex_service_failed_def split: option.splits)
qed

lemma ex_service_state:
  "CreationType (object_heap (world ex_service_failed) 0) = ''apply''
   \<and> GetObject (Some 1) ''a!ping'' (world ex_service_live) = Some 0
   \<and> GetObject (Some 1) ''a!ping'' (world ex_service_failed) = None"
  by code_simp

theorem ReloadObject_restores_on_failure_witness:
  "fst (the (ReloadObject 5 ex_X_reload (Some 0) True (Some (ScriptFunction 8)) ex_service_live)) =
     Some (OtherException ''boom'')
   \<and> CreationType (object_heap (world ex_service_failed) 0) = ''apply''
   \<and> (\<exists>ss. restore_walk ex_X_reload [(0, None)] ss
         \<and> hd ss = in_world (\<lambda>w. snd (ActivationScope_enter None w)) ex_service_failed)
   \<and> GetObject (Some 0) ''b'' (world ex_two_live) = Some 1
   \<and> ReloadObject 5 ex_X_parents (Some 0) True (Some (ScriptFunction 7)) ex_two_live =
       Some (Some (DuplicateDefinition ''Host'' ''a'' (DebugInfo_at ''hosts.conf'' 1)
                     (DebugInfo_at ''hosts.conf'' 1)),
             in_world ActivationScope_leave ex_two_stopped)
   \<and> (\<exists>k ss ex' st. k < 2
         \<and> restore_walk ex_X_parents (take k [(0, Some 0), (1, Some 1)]) ss
         \<and> hd ss = in_world (\<lambda>w. snd (ActivationScope_enter None w)) ex_two_failed
         \<and> RestoreObject ex_X_parents True ([(0, Some 0), (1, Some 1)] ! k) (last ss) = (Some ex', st)
         \<and> in_world ActivationScope_leave ex_two_stopped = in_world ActivationScope_leave st)
   \<and> GetObject (Some 0) ''b'' (world ex_two_stopped) = None
   \<and> trace ex_two_stopped =
        [EvSetExtension 1 ''ConfigObjectDeleted'' True, EvDeactivate 1 True,
         EvSetExtension 0 ''ConfigObjectDeleted'' True, EvDeactivate 0 True,
         EvSetExtension 0 ''ConfigObjectDeleted'' False, EvRegisterItem 0]"
proof -
  have n: "fst (RestoreObjectsHelper ex_X_reload [(0, None)] True ex_service_failed) = None"
    by (rule RestoreObjectsHelper_no_throw) (simp_all add: ex_X_reload_def ex_X_def)
  have a: "fst (the (ReloadObject 5 ex_X_reload (Some 0) True (Some (ScriptFunction 8)) ex_service_live)) =
     Some (OtherException ''boom'')
   \<and> CreationType (object_heap (world ex_service_failed) 0) = ''apply''
   \<and> (\<exists>ss. restore_walk ex_X_reload [(0, None)] ss
         \<and> hd ss = in_world (\<lambda>w. snd (ActivationScope_enter None w)) ex_service_failed)"
    using ReloadObject_restores_on_failure [OF ex_service_delete ex_service_rebuild] n ex_service_state
    by (auto split: if_splits)
  from ReloadObject_restores_on_failure [OF ex_two_delete ex_two_rebuild]
  obtain r s3 k ss where
    h: "RestoreObjectsHelper ex_X_parents [(0, Some 0), (1, Some 1)] True ex_two_failed = (r, s3)"
    and c: "ReloadObject 5 ex_X_parents (Some 0) True (Some (ScriptFunction 7)) ex_two_live =
         Some (Some (case r of None \<Rightarrow> OtherException ''boom'' | Some ex' \<Rightarrow> ex'), s3)"
    and k: "k \<le> length [(0::nat, Some (0::nat)), (1, Some 1)]"
    and w: "restore_walk ex_X_parents (take k [(0, Some 0), (1, Some 1)]) ss"
      "hd ss = in_world (\<lambda>w. snd (ActivationScope_enter None w)) ex_two_failed"
    and e: "if k = length [(0::nat, Some (0::nat)), (1, Some 1)]
         then r = None \<and> s3 = in_world ActivationScope_leave (last ss)
         else \<exists>ex' st. RestoreObject ex_X_parents True ([(0, Some 0), (1, Some 1)] ! k) (last ss)
                          = (Some ex', st)
                \<and> r = Some ex' \<and> s3 = in_world ActivationScope_leave st"
    by blast
  have r: "r = Some (DuplicateDefinition ''Host'' ''a'' (DebugInfo_at ''hosts.conf'' 1)
                       (DebugInfo_at ''hosts.conf'' 1))"
    and s3: "s3 = in_world ActivationScope_leave ex_two_stopped"
    using h ex_two_restore by simp_all
  have k2: "k < 2" using k e r by (cases "k = 2") simp_all
  then obtain ex' st where st:
    "RestoreObject ex_X_parents True ([(0, Some 0), (1, Some 1)] ! k) (last ss) = (Some ex', st)"
    "s3 = in_world ActivationScope_leave st"
    using e by auto
  have b: "\<exists>k ss ex' st. k < 2
         \<and> restore_walk ex_X_parents (take k [(0, Some 0), (1, Some 1)]) ss
         \<and> hd ss = in_world (\<lambda>w. snd (ActivationScope_enter None w)) ex_two_failed
         \<and> RestoreObject ex_X_parents True ([(0, Some 0), (1, Some 1)] ! k) (last ss) = (Some ex', st)
         \<and> in_world ActivationScope_leave ex_two_stopped = in_world ActivationScope_leave st"
    using k2 w s3 st by (intro exI [of _ k] exI [of _ ss] exI [of _ ex'] exI [of _ st]) simp
  show ?thesis using a b c r s3 ex_two_state by simp
qed

end
